theory Spec2Isabelle
  imports Complex_Main
begin

section \<open>Mask synthesis of \<open>lensless/hardware/mask.py\<close>\<close>

text \<open>
  The development follows \<open>src/lensless/hardware/mask.py\<close>. Python exceptions are values of
  \<open>py_error\<close>; a function that can raise returns \<open>py_error + 'a\<close> with \<open>Inl\<close> for the
  exception. \<open>numpy\<close> arrays of floats are lists (of lists) of reals: rounding of
  floating-point arithmetic is not modelled. Functions of other packages (the propagators of
  \<open>waveprop\<close>, \<open>resize\<close>, the \<open>numpy\<close> random generator, the Perlin noise generator,
  \<open>scipy\<close>'s \<open>max_len_seq\<close>) are parameters of the functions that call them.
\<close>

subsection \<open>Errors and arrays\<close>

datatype py_error =
    AssertionError
  | ValueError string
  | IndexError
  | TypeError
  | ZeroDivisionError
  | UnboundLocalError string

type_synonym 'a array2 = "'a list list"

text \<open>The shape of a two-dimensional array (rows, columns); the rows of an array have one length.\<close>

definition shape2 :: "'a array2 \<Rightarrow> nat \<times> nat" where
  "shape2 a = (length a, (case a of [] \<Rightarrow> 0 | r # _ \<Rightarrow> length r))"

definition rect :: "'a array2 \<Rightarrow> bool" where
  "rect a = list_all (\<lambda>r. length r = snd (shape2 a)) a"

definition map2d :: "('a \<Rightarrow> 'b) \<Rightarrow> 'a array2 \<Rightarrow> 'b array2" where
  "map2d f a = map (map f) a"

text \<open>Python's \<open>x % m\<close> on floats, for a positive modulus: the result has the sign of \<open>m\<close>.\<close>

definition py_fmod :: "real \<Rightarrow> real \<Rightarrow> real" where
  "py_fmod x m = x - m * of_int \<lfloor>x / m\<rfloor>"

subsection \<open>\<open>phase_retrieval\<close>\<close>

text \<open>
  The pixel pitch argument \<open>d1\<close> is a float or a sequence (\<open>hasattr(d1, "__len__")\<close>).
\<close>

datatype pitch = Scalar real | Seq "real list"

text \<open>
  \<open>d1[0] != d1[1]\<close> raises IndexError on a sequence shorter than two; the warning for a
  non-square pixel is returned as a flag.
\<close>

definition pitch_first :: "pitch \<Rightarrow> py_error + (real \<times> bool)" where
  "pitch_first d1 =
     (case d1 of
        Scalar d \<Rightarrow> Inr (d, False)
      | Seq ds \<Rightarrow>
          (if length ds < 2 then Inl IndexError
           else Inr (ds ! 0, ds ! 0 \<noteq> ds ! 1)))"

text \<open>
  The local variables of the loop: \<open>M_p\<close>, and \<open>M_phi\<close>, which is bound only by the loop
  body (\<open>None\<close> while it is unbound).
\<close>

record pr_state =
  M_p :: "complex array2"
  M_phi :: "complex array2 option"

text \<open>
  One iteration of the loop body. \<open>fresnel_conv u wv d1 dz\<close> is the first component of the
  result of \<open>waveprop.fresnel.fresnel_conv\<close>.
\<close>

definition pr_step ::
  "(complex array2 \<Rightarrow> real \<Rightarrow> real \<Rightarrow> real \<Rightarrow> complex array2) \<Rightarrow>
   real array2 \<Rightarrow> real \<Rightarrow> real \<Rightarrow> real \<Rightarrow> pr_state \<Rightarrow> pr_state" where
  "pr_step fresnel_conv target_psf wv d1 dz s =
     (let m1 = fresnel_conv (M_p s) wv d1 (- dz);
          m2 = map2d (\<lambda>z. exp (\<i> * of_real (Arg z))) m1;
          p1 = fresnel_conv m2 wv d1 dz;
          p2 = map2 (map2 (\<lambda>t z. of_real (sqrt t) * exp (\<i> * of_real (Arg z)))) target_psf p1
      in \<lparr>M_p = p2, M_phi = Some m2\<rparr>)"

text \<open>\<open>for _ in range(n_iter)\<close>: no iteration when \<open>n_iter \<le> 0\<close>.\<close>

definition pr_loop ::
  "(complex array2 \<Rightarrow> real \<Rightarrow> real \<Rightarrow> real \<Rightarrow> complex array2) \<Rightarrow>
   real array2 \<Rightarrow> real \<Rightarrow> real \<Rightarrow> real \<Rightarrow> int \<Rightarrow> pr_state \<Rightarrow> pr_state" where
  "pr_loop fresnel_conv target_psf wv d1 dz n_iter s =
     ((pr_step fresnel_conv target_psf wv d1 dz) ^^ (nat n_iter)) s"

record pr_result =
  pr_phi :: "real array2"
  pr_height_map :: "real array2 option"
  pr_warned :: bool

definition phase_retrieval ::
  "(complex array2 \<Rightarrow> real \<Rightarrow> real \<Rightarrow> real \<Rightarrow> complex array2) \<Rightarrow>
   real array2 \<Rightarrow> real \<Rightarrow> pitch \<Rightarrow> real \<Rightarrow> real \<Rightarrow> int \<Rightarrow> bool \<Rightarrow> py_error + pr_result" where
  "phase_retrieval fresnel_conv target_psf wv d1 dz n n_iter height_map =
     (case pitch_first d1 of
        Inl e \<Rightarrow> Inl e
      | Inr (d, w) \<Rightarrow>
          (let s0 = \<lparr>M_p = map2d (\<lambda>t. of_real (sqrt t)) target_psf, M_phi = None\<rparr>;
               s = pr_loop fresnel_conv target_psf wv d dz n_iter s0
           in case M_phi s of
                None \<Rightarrow> Inl (UnboundLocalError ''M_phi'')
              | Some m \<Rightarrow>
                  (let ph = map2d (\<lambda>z. py_fmod (Arg z + 2 * pi) (2 * pi)) m
                   in Inr \<lparr>pr_phi = ph,
                           pr_height_map =
                             (if height_map
                              then Some (map2d (\<lambda>x. wv * x / (2 * pi * (n - 1))) ph)
                              else None),
                           pr_warned = w\<rparr>)))"

subsection \<open>\<open>Mask.__init__\<close>: resolution, size and feature size\<close>

text \<open>
  The \<open>feature_size\<close> argument is a float (\<open>isinstance(feature_size, float)\<close>), a
  sequence, or another scalar such as an int, on which \<open>len\<close> raises TypeError.
\<close>

datatype fs_arg = FSFloat real | FSSeq "real list" | FSInt int

text \<open>The attribute \<open>size\<close> (in metres) is the field \<open>size_m\<close>.\<close>

record geometry =
  resolution :: "int list"
  size_m :: "real list"
  feature_size :: "real list"
  distance_sensor :: real

definition assert_py :: "bool \<Rightarrow> (py_error + 'a) \<Rightarrow> py_error + 'a" where
  "assert_py b k = (if b then k else Inl AssertionError)"

text \<open>
  \<open>resolution * feature_size\<close> with a \<open>numpy\<close> array of length two on the left: a scalar
  and a sequence of length one are broadcast, a sequence of length two is multiplied
  elementwise, any other length raises ValueError.
\<close>

definition res_times_fs :: "int list \<Rightarrow> fs_arg \<Rightarrow> py_error + real list" where
  "res_times_fs res fs =
     (case fs of
        FSFloat f \<Rightarrow> Inr (map (\<lambda>r. of_int r * f) res)
      | FSInt k \<Rightarrow> Inr (map (\<lambda>r. of_int r * of_int k) res)
      | FSSeq fl \<Rightarrow>
          (if length fl = 1 then Inr (map (\<lambda>r. of_int r * fl ! 0) res)
           else if length fl = length res then Inr (map2 (\<lambda>r f. of_int r * f) res fl)
           else Inl (ValueError ''operands could not be broadcast together'')))"

text \<open>
  The body of \<open>Mask.__init__\<close> up to the assignment of the attributes. In
  \<open>size / resolution\<close> a zero resolution gives \<open>inf\<close> or \<open>nan\<close> in floating point, then
  \<open>resolution * feature_size\<close> is \<open>nan\<close> and the last assertion fails: the model raises
  AssertionError there, since the reals have no such values.
\<close>

definition Mask_init_geometry ::
  "int list \<Rightarrow> real \<Rightarrow> real list option \<Rightarrow> fs_arg option \<Rightarrow> py_error + geometry" where
  "Mask_init_geometry res dz size_arg fs_arg =
     assert_py (length res = 2)
     (assert_py (size_arg \<noteq> None \<or> fs_arg \<noteq> None)
     (case (case size_arg of
              None \<Rightarrow> res_times_fs res (the fs_arg)
            | Some sz \<Rightarrow> assert_py (length sz = 2) (Inr sz)) of
        Inl e \<Rightarrow> Inl e
      | Inr sz \<Rightarrow>
          (case (case fs_arg of
                   None \<Rightarrow> assert_py (0 \<notin> set res) (Inr (map2 (\<lambda>s r. s / of_int r) sz res))
                 | Some (FSFloat f) \<Rightarrow> assert_py (0 < f) (Inr [f, f])
                 | Some (FSInt k) \<Rightarrow> Inl TypeError
                 | Some (FSSeq fl) \<Rightarrow>
                     assert_py (length fl = 2) (assert_py (list_all (\<lambda>f. 0 < f) fl) (Inr fl))) of
             Inl e \<Rightarrow> Inl e
           | Inr fs \<Rightarrow>
               assert_py (list_all (\<lambda>i. of_int (res ! i) * fs ! i \<le> sz ! i) [0..<2])
                 (Inr \<lparr>resolution = res, size_m = sz, feature_size = fs,
                        distance_sensor = dz\<rparr>))))"

subsection \<open>\<open>Mask.compute_psf\<close>\<close>

text \<open>
  \<open>psf\<close> is an array of shape \<open>resolution + (len(psf_wavelength),)\<close>, here a list of rows
  of lists of pixels of lists over the wavelengths; \<open>np.zeros\<close> raises ValueError on a
  negative dimension. The assignment \<open>psf[:, :, i] = u\<close> broadcasts a unit axis of \<open>u\<close> and
  raises ValueError when the shape of \<open>u\<close> fits in neither way. \<open>angular_spectrum u wv d1 dz\<close>
  is the first component of the result of \<open>waveprop.rs.angular_spectrum\<close>.
\<close>

type_synonym 'a array3 = "'a list list list"

definition shape3 :: "'a array3 \<Rightarrow> nat \<times> nat \<times> nat" where
  "shape3 a =
     (length a,
      (case a of [] \<Rightarrow> 0 | r # _ \<Rightarrow> length r),
      (case a of [] \<Rightarrow> 0 | r # _ \<Rightarrow> (case r of [] \<Rightarrow> 0 | c # _ \<Rightarrow> length c)))"

definition broadcastable :: "'a array2 \<Rightarrow> nat \<Rightarrow> nat \<Rightarrow> bool" where
  "broadcastable u r0 r1 =
     ((fst (shape2 u) = r0 \<or> fst (shape2 u) = 1) \<and> (snd (shape2 u) = r1 \<or> snd (shape2 u) = 1))"

definition broadcast_at :: "'a array2 \<Rightarrow> nat \<Rightarrow> nat \<Rightarrow> 'a" where
  "broadcast_at u x y =
     u ! (if fst (shape2 u) = 1 then 0 else x) ! (if snd (shape2 u) = 1 then 0 else y)"

definition compute_psf ::
  "(complex array2 \<Rightarrow> real \<Rightarrow> real list \<Rightarrow> real \<Rightarrow> complex array2) \<Rightarrow>
   geometry \<Rightarrow> complex array2 \<Rightarrow> real list \<Rightarrow> py_error + real array3" where
  "compute_psf angular_spectrum g u_in psf_wavelength =
     (if list_ex (\<lambda>r. r < 0) (resolution g)
      then Inl (ValueError ''negative dimensions are not allowed'')
      else
        (let r0 = nat (resolution g ! 0); r1 = nat (resolution g ! 1);
             us = map (\<lambda>wv. angular_spectrum u_in wv (feature_size g) (distance_sensor g))
                    psf_wavelength
         in if list_all (\<lambda>u. broadcastable u r0 r1) us
            then Inr (map (\<lambda>x. map (\<lambda>y. map (\<lambda>u. (cmod (broadcast_at u x y))\<^sup>2) us)
                       [0..<r1]) [0..<r0])
            else Inl (ValueError ''could not broadcast input array'')))"

subsection \<open>\<open>CodedAperture\<close>: primality and the MURA square pattern\<close>

text \<open>
  \<open>int(sqrt(n))\<close>: the floor of the square root. \<open>math.sqrt\<close> raises ValueError on a
  negative argument, which \<open>is_prime\<close> below checks before it takes the root.
\<close>

definition int_sqrt :: "int \<Rightarrow> int" where
  "int_sqrt n = \<lfloor>sqrt (of_int n)\<rfloor>"

text \<open>\<open>range(lo, hi, step)\<close> for a positive step.\<close>

definition py_range :: "int \<Rightarrow> int \<Rightarrow> int \<Rightarrow> int list" where
  "py_range lo hi step = map (\<lambda>k. lo + step * int k) [0..<nat ((hi - lo + step - 1) div step)]"

definition is_prime :: "int \<Rightarrow> py_error + bool" where
  "is_prime n =
     (if n mod 2 = 0 \<and> n > 2 then Inr False
      else if n < 0 then Inl (ValueError ''math domain error'')
      else Inr (list_all (\<lambda>i. n mod i \<noteq> 0) (py_range 3 (int_sqrt n + 1) 2)))"

text \<open>
  \<open>sympy.ntheory.quadratic_residues(p)\<close> is the sorted list of the squares modulo \<open>p\<close>:
  \<open>sorted({pow(i, 2, p) for i in range(p // 2 + 1)})\<close>; \<open>pow\<close> raises ValueError for the
  modulus 0.
\<close>

definition quadratic_residues :: "int \<Rightarrow> py_error + int list" where
  "quadratic_residues p =
     (if p = 0 then Inl (ValueError ''pow() 3rd argument cannot be 0'')
      else Inr (sort (remdups (map (\<lambda>i. i * i mod p) [0..p div 2]))))"

text \<open>
  \<open>squarepattern\<close>: the array starts as zeros, column 0 is set to one from row 1 on, and the
  two loops set the cell \<open>(i, j)\<close>, for \<open>i, j\<close> from 1, to one when \<open>i - 1\<close> and \<open>j - 1\<close> are
  both in \<open>q\<close> or both outside. Every cell is written at most once, so the array is given
  cell by cell.
\<close>

definition squarepattern_cell :: "int list \<Rightarrow> int \<Rightarrow> int \<Rightarrow> int" where
  "squarepattern_cell q i j =
     (if i = 0 then 0
      else if j = 0 then 1
      else if \<not> ((i - 1 \<in> set q) \<noteq> (j - 1 \<in> set q)) then 1 else 0)"

definition squarepattern :: "int \<Rightarrow> py_error + int array2" where
  "squarepattern p =
     (case is_prime p of
        Inl e \<Rightarrow> Inl e
      | Inr b \<Rightarrow>
          (if \<not> b then Inl (ValueError ''p is not a valid length. It must be prime.'')
           else
             (case quadratic_residues p of
                Inl e \<Rightarrow> Inl e
              | Inr q \<Rightarrow> Inr (map (\<lambda>i. map (\<lambda>j. squarepattern_cell q i j) [0..p - 1]) [0..p - 1]))))"

text \<open>The number of cells of an array that are equal to one.\<close>

definition count_ones :: "int array2 \<Rightarrow> nat" where
  "count_ones a = sum_list (map (\<lambda>r. length (filter (\<lambda>v. v = 1) r)) a)"

text \<open>Primality as number theory has it, to compare \<open>is_prime\<close> with.\<close>

definition prime_number :: "int \<Rightarrow> bool" where
  "prime_number p = (1 < p \<and> (\<forall>d. 0 < d \<and> d dvd p \<longrightarrow> d = 1 \<or> d = p))"

subsection \<open>\<open>CodedAperture.create_mask\<close>\<close>

datatype ca_method = MURA | MLS | OtherMethod

record coded_aperture =
  mask_field :: "real array2"
  row :: "int list"
  col :: "int list"

text \<open>\<open>np.clip\<close>, and \<open>np.round\<close>, which rounds a half to the even neighbour.\<close>

definition np_clip :: "real \<Rightarrow> real \<Rightarrow> real \<Rightarrow> real" where
  "np_clip x lo hi = min (max x lo) hi"

definition np_round :: "real \<Rightarrow> int" where
  "np_round x =
     (let f = \<lfloor>x\<rfloor>; d = x - of_int f
      in if d < 1 / 2 then f else if 1 / 2 < d then f + 1 else if even f then f else f + 1)"

definition np_outer :: "int list \<Rightarrow> int list \<Rightarrow> int array2" where
  "np_outer xs ys = map (\<lambda>a. map (\<lambda>b. a * b) ys) xs"

text \<open>
  The pattern before upscaling. In the MURA branch \<open>self.mask[0, :]\<close> raises IndexError on
  an array with no row, \<open>self.mask[:, 0]\<close> on one with no column. \<open>max_len_seq n\<close> is the
  first component of the result of \<open>scipy.signal.max_len_seq\<close>, which raises ValueError for
  a number of bits it has no taps for.
\<close>

definition ca_pattern ::
  "(int \<Rightarrow> py_error + int list) \<Rightarrow> ca_method \<Rightarrow> int \<Rightarrow> py_error + coded_aperture" where
  "ca_pattern max_len_seq method n_bits =
     (case method of
        OtherMethod \<Rightarrow> Inl AssertionError
      | MURA \<Rightarrow>
          (case squarepattern (4 * n_bits + 1) of
             Inl e \<Rightarrow> Inl e
           | Inr a \<Rightarrow>
               (let m = map tl (tl a)
                in if m = [] \<or> hd m = [] then Inl IndexError
                   else Inr \<lparr>mask_field = map2d of_int m,
                             row = map (\<lambda>v. 2 * v - 1) (hd m),
                             col = map (\<lambda>r. 2 * hd r - 1) m\<rparr>))
      | MLS \<Rightarrow>
          (case max_len_seq n_bits of
             Inl e \<Rightarrow> Inl e
           | Inr s \<Rightarrow>
               (let seq = map (\<lambda>v. v * 2 - 1) s; h_r = seq @ seq
                in Inr \<lparr>mask_field = map2d (\<lambda>v. (of_int v + 1) / 2) (np_outer h_r h_r),
                         row = h_r, col = h_r\<rparr>)))"

text \<open>
  Upscaling. \<open>resize a shape\<close> is \<open>lensless.utils.image.resize\<close> on the array with a
  channel axis added and squeezed away afterwards.
\<close>

definition ca_create_mask ::
  "(int \<Rightarrow> py_error + int list) \<Rightarrow> (real array2 \<Rightarrow> int \<times> int \<Rightarrow> real array2) \<Rightarrow>
   ca_method \<Rightarrow> int \<Rightarrow> int list \<Rightarrow> py_error + coded_aperture" where
  "ca_create_mask max_len_seq resize method n_bits res =
     (case ca_pattern max_len_seq method n_bits of
        Inl e \<Rightarrow> Inl e
      | Inr c \<Rightarrow>
          (if res ! 0 \<noteq> int (fst (shape2 (mask_field c))) \<or>
              res ! 1 \<noteq> int (snd (shape2 (mask_field c)))
           then Inr (c\<lparr>mask_field :=
                  map2d (\<lambda>v. of_int (np_round (np_clip v 0 1)))
                    (resize (mask_field c) (res ! 0, res ! 1))\<rparr>)
           else Inr c))"

subsection \<open>Construction of a \<open>CodedAperture\<close>\<close>

text \<open>
  \<open>CodedAperture.__init__\<close> stores its arguments and calls \<open>Mask.__init__\<close>, which checks
  the geometry, calls \<open>create_mask\<close> and then \<open>compute_psf\<close> on the mask.
\<close>

record coded_aperture_mask =
  ca_geometry :: geometry
  ca_pattern_of :: coded_aperture
  ca_psf :: "real array3"

definition default_psf_wavelength :: "real list" where
  "default_psf_wavelength = [460 / 10 ^ 9, 550 / 10 ^ 9, 640 / 10 ^ 9]"

definition CodedAperture_init ::
  "(int \<Rightarrow> py_error + int list) \<Rightarrow> (real array2 \<Rightarrow> int \<times> int \<Rightarrow> real array2) \<Rightarrow>
   (complex array2 \<Rightarrow> real \<Rightarrow> real list \<Rightarrow> real \<Rightarrow> complex array2) \<Rightarrow>
   ca_method \<Rightarrow> int \<Rightarrow> int list \<Rightarrow> real \<Rightarrow> real list option \<Rightarrow> fs_arg option \<Rightarrow> real list \<Rightarrow>
   py_error + coded_aperture_mask" where
  "CodedAperture_init max_len_seq resize angular_spectrum method n_bits res dz size_arg fs_arg
     psf_wavelength =
     (case Mask_init_geometry res dz size_arg fs_arg of
        Inl e \<Rightarrow> Inl e
      | Inr g \<Rightarrow>
          (case ca_create_mask max_len_seq resize method n_bits (resolution g) of
             Inl e \<Rightarrow> Inl e
           | Inr c \<Rightarrow>
               (case compute_psf angular_spectrum g (map2d of_real (mask_field c))
                       psf_wavelength of
                  Inl e \<Rightarrow> Inl e
                | Inr p \<Rightarrow> Inr \<lparr>ca_geometry = g, ca_pattern_of = c, ca_psf = p\<rparr>)))"

text \<open>An array whose every entry is 0 or 1.\<close>

definition binary2 :: "real array2 \<Rightarrow> bool" where
  "binary2 a = list_all (list_all (\<lambda>v. v = 0 \<or> v = 1)) a"

text \<open>
  Instances of the three outside functions, for use at concrete inputs: a bit sequence of
  the length \<open>2 ^ n - 1\<close> of a maximal-length sequence, nearest-neighbour resampling, and a
  propagator that leaves the field as it is.
\<close>

definition example_max_len_seq :: "int \<Rightarrow> py_error + int list" where
  "example_max_len_seq n = Inr (map (\<lambda>k. if k mod 3 = 0 then 1 else 0) [0..<2 ^ nat n - 1])"

definition example_resize :: "real array2 \<Rightarrow> int \<times> int \<Rightarrow> real array2" where
  "example_resize a shp =
     (let r0 = nat (fst shp); r1 = nat (snd shp); h = fst (shape2 a); w = snd (shape2 a)
      in map (\<lambda>x. map (\<lambda>y. a ! (x * h div r0) ! (y * w div r1)) [0..<r1]) [0..<r0])"

definition example_propagator :: "complex array2 \<Rightarrow> real \<Rightarrow> real list \<Rightarrow> real \<Rightarrow> complex array2" where
  "example_propagator u wv d1 dz = u"

subsection \<open>The random generator of \<open>numpy\<close>\<close>

text \<open>
  \<open>np.random.seed\<close> and \<open>np.random.uniform\<close> work on one generator of the process. Its
  state is a value of a type \<open>'g\<close> that every function drawing from it takes and returns;
  the generator itself is a parameter: \<open>rng_seed s\<close> is the state after \<open>np.random.seed(s)\<close>,
  whatever the state before, and \<open>rng_uniform lo hi g\<close> is the number drawn by
  \<open>np.random.uniform(lo, hi)\<close> in state \<open>g\<close> with the state after it. An array of draws is
  filled in order, one draw after the other.
\<close>

record 'g np_random =
  rng_seed :: "int \<Rightarrow> 'g"
  rng_uniform :: "real \<Rightarrow> real \<Rightarrow> 'g \<Rightarrow> real \<times> 'g"

fun uniform_list :: "'g np_random \<Rightarrow> real \<Rightarrow> real \<Rightarrow> nat \<Rightarrow> 'g \<Rightarrow> real list \<times> 'g" where
  "uniform_list rng lo hi 0 g = ([], g)"
| "uniform_list rng lo hi (Suc n) g =
     (let (x, g1) = rng_uniform rng lo hi g;
          (xs, g2) = uniform_list rng lo hi n g1
      in (x # xs, g2))"

fun uniform_array2 ::
  "'g np_random \<Rightarrow> real \<Rightarrow> real \<Rightarrow> nat \<Rightarrow> nat \<Rightarrow> 'g \<Rightarrow> real array2 \<times> 'g" where
  "uniform_array2 rng lo hi 0 cols g = ([], g)"
| "uniform_array2 rng lo hi (Suc rows) cols g =
     (let (r, g1) = uniform_list rng lo hi cols g;
          (rs, g2) = uniform_array2 rng lo hi rows cols g1
      in (r # rs, g2))"

subsection \<open>\<open>HeightVarying\<close>\<close>

text \<open>
  \<open>get_phi\<close>: the factor \<open>2 * np.pi * (refractive_index - 1) / wavelength\<close> is computed on
  Python floats, so a zero wavelength raises ZeroDivisionError.
\<close>

definition get_phi :: "real array2 \<Rightarrow> real \<Rightarrow> real \<Rightarrow> py_error + real array2" where
  "get_phi height_map refractive_index wavelength =
     (if wavelength = 0 then Inl ZeroDivisionError
      else Inr (map2d (\<lambda>h. py_fmod (h * (2 * pi * (refractive_index - 1) / wavelength)) (2 * pi))
                  height_map))"

record height_varying =
  hv_geometry :: geometry
  hv_height_map :: "real array2"
  hv_refractive_index :: real
  hv_wavelength :: real
  hv_field :: "complex array2"
  hv_psf :: "real array3"

text \<open>
  \<open>create_mask\<close>: the height map and the mask. A height map that was not given is drawn
  from the generator; \<open>np.random.uniform\<close> raises ValueError on a negative dimension.
\<close>

definition hv_create_mask ::
  "'g np_random \<Rightarrow> real array2 option \<Rightarrow> real \<times> real \<Rightarrow> real \<Rightarrow> real \<Rightarrow> int list \<Rightarrow> 'g \<Rightarrow>
   (py_error + real array2 \<times> complex array2) \<times> 'g" where
  "hv_create_mask rng height_map height_range refractive_index wavelength res g =
     (case (case height_map of
              Some hm \<Rightarrow> (Inr hm, g)
            | None \<Rightarrow>
                (if list_ex (\<lambda>r. r < 0) res
                 then (Inl (ValueError ''negative dimensions are not allowed''), g)
                 else (let (hm, g1) = uniform_array2 rng (fst height_range) (snd height_range)
                                        (nat (res ! 0)) (nat (res ! 1)) g
                       in (Inr hm, g1)))) of
        (Inl e, g1) \<Rightarrow> (Inl e, g1)
      | (Inr hm, g1) \<Rightarrow>
          (if \<not> (int (fst (shape2 hm)) = res ! 0 \<and> int (snd (shape2 hm)) = res ! 1)
           then (Inl AssertionError, g1)
           else (case get_phi hm refractive_index wavelength of
                   Inl e \<Rightarrow> (Inl e, g1)
                 | Inr phase_mask \<Rightarrow>
                     (Inr (hm, map2d (\<lambda>p. exp (\<i> * of_real p)) phase_mask), g1))))"

text \<open>
  \<open>HeightVarying.__init__\<close>: the generator is seeded when no height map is given, then
  \<open>Mask.__init__\<close> runs. The result is paired with the state of the generator afterwards.
\<close>

definition HeightVarying_init ::
  "'g np_random \<Rightarrow> (complex array2 \<Rightarrow> real \<Rightarrow> real list \<Rightarrow> real \<Rightarrow> complex array2) \<Rightarrow>
   real \<Rightarrow> real \<Rightarrow> real array2 option \<Rightarrow> real \<times> real \<Rightarrow> int \<Rightarrow>
   int list \<Rightarrow> real \<Rightarrow> real list option \<Rightarrow> fs_arg option \<Rightarrow> real list \<Rightarrow> 'g \<Rightarrow>
   (py_error + height_varying) \<times> 'g" where
  "HeightVarying_init rng angular_spectrum refractive_index wavelength height_map height_range
     seed res dz size_arg fs_arg psf_wavelength g0 =
     (let g1 = (if height_map = None then rng_seed rng seed else g0)
      in case Mask_init_geometry res dz size_arg fs_arg of
           Inl e \<Rightarrow> (Inl e, g1)
         | Inr geo \<Rightarrow>
             (case hv_create_mask rng height_map height_range refractive_index wavelength
                     (resolution geo) g1 of
                (Inl e, g2) \<Rightarrow> (Inl e, g2)
              | (Inr (hm, fld), g2) \<Rightarrow>
                  (case compute_psf angular_spectrum geo fld psf_wavelength of
                     Inl e \<Rightarrow> (Inl e, g2)
                   | Inr p \<Rightarrow>
                       (Inr \<lparr>hv_geometry = geo, hv_height_map = hm,
                              hv_refractive_index = refractive_index,
                              hv_wavelength = wavelength, hv_field = fld, hv_psf = p\<rparr>, g2))))"

text \<open>The method \<open>get_phi\<close> of a constructed mask.\<close>

definition hv_get_phi :: "height_varying \<Rightarrow> py_error + real array2" where
  "hv_get_phi m = get_phi (hv_height_map m) (hv_refractive_index m) (hv_wavelength m)"

text \<open>
  An instance of the generator for use at concrete inputs: the state counts the draws since
  the seed.
\<close>

definition example_rng :: "nat np_random" where
  "example_rng =
     \<lparr>rng_seed = (\<lambda>s. nat \<bar>s\<bar>),
      rng_uniform = (\<lambda>lo hi g. (lo + (hi - lo) * real (g mod 4) / 4, Suc g))\<rparr>"

subsection \<open>\<open>MultiLensArray\<close>: circles\<close>

text \<open>A circle is \<open>(x, y, r)\<close>: its centre and its radius.\<close>

type_synonym circle = "real \<times> real \<times> real"

definition does_circle_overlap :: "circle list \<Rightarrow> real \<Rightarrow> real \<Rightarrow> real \<Rightarrow> bool" where
  "does_circle_overlap circles x y r =
     list_ex (\<lambda>(cx, cy, cr). sqrt ((x - cx)\<^sup>2 + (y - cy)\<^sup>2) < r + cr) circles"

fun no_circle_overlap :: "circle list \<Rightarrow> bool" where
  "no_circle_overlap [] = True"
| "no_circle_overlap ((x, y, r) # circles) =
     (if does_circle_overlap circles x y r then False else no_circle_overlap circles)"

text \<open>
  \<open>place_spheres_on_plane\<close>. The inner loop makes at most \<open>max_attempts\<close> attempts for one
  radius, each drawing \<open>x\<close> and then \<open>y\<close>; the outer loop goes through the radii, largest
  first, and appends each circle that was placed. An array of no circle has one axis, so
  \<open>placed_circles[:, :2]\<close> raises IndexError when nothing was placed.
\<close>

fun place_attempts ::
  "'g np_random \<Rightarrow> circle list \<Rightarrow> real \<Rightarrow> real \<Rightarrow> real \<Rightarrow> nat \<Rightarrow> 'g \<Rightarrow> circle option \<times> 'g" where
  "place_attempts rng placed_circles width hgt r 0 g = (None, g)"
| "place_attempts rng placed_circles width hgt r (Suc k) g =
     (let (x, g1) = rng_uniform rng r (width - r) g;
          (y, g2) = rng_uniform rng r (hgt - r) g1
      in if \<not> does_circle_overlap placed_circles x y r then (Some (x, y, r), g2)
         else place_attempts rng placed_circles width hgt r k g2)"

fun place_all ::
  "'g np_random \<Rightarrow> real \<Rightarrow> real \<Rightarrow> nat \<Rightarrow> real list \<Rightarrow> circle list \<Rightarrow> 'g \<Rightarrow> circle list \<times> 'g" where
  "place_all rng width hgt max_attempts [] placed_circles g = (placed_circles, g)"
| "place_all rng width hgt max_attempts (r # radius_sorted) placed_circles g =
     (case place_attempts rng placed_circles width hgt r max_attempts g of
        (Some c, g1) \<Rightarrow>
          place_all rng width hgt max_attempts radius_sorted (placed_circles @ [c]) g1
      | (None, g1) \<Rightarrow> place_all rng width hgt max_attempts radius_sorted placed_circles g1)"

definition place_spheres_on_plane ::
  "'g np_random \<Rightarrow> real \<Rightarrow> real \<Rightarrow> real list \<Rightarrow> nat \<Rightarrow> 'g \<Rightarrow>
   (py_error + (real \<times> real) list \<times> real list) \<times> 'g" where
  "place_spheres_on_plane rng width hgt radius max_attempts g =
     (let (placed_circles, g1) = place_all rng width hgt max_attempts (rev (sort radius)) [] g
      in if placed_circles = [] then (Inl IndexError, g1)
         else (Inr (map (\<lambda>(x, y, r). (x, y)) placed_circles,
                    map (\<lambda>(x, y, r). r) placed_circles), g1))"

subsection \<open>\<open>MultiLensArray\<close>: the height map\<close>

text \<open>
  \<open>lens_contribution\<close>: the lenses are tried in the order of \<open>locs\<close>, and the first whose
  disk holds the point strictly decides. \<open>radius[idx]\<close> raises IndexError when there are
  fewer radii than locations.
\<close>

fun lens_contribution :: "real list \<Rightarrow> (real \<times> real) list \<Rightarrow> real \<Rightarrow> real \<Rightarrow> py_error + real" where
  "lens_contribution radius [] x y = Inr 0"
| "lens_contribution [] (loc # locs) x y = Inl IndexError"
| "lens_contribution (r # radius) (loc # locs) x y =
     (if (x - fst loc)\<^sup>2 + (y - snd loc)\<^sup>2 < r\<^sup>2
      then Inr (sqrt (r\<^sup>2 - (x - fst loc)\<^sup>2 - (y - snd loc)\<^sup>2))
      else lens_contribution radius locs x y)"

text \<open>The first exception of a list of results, in order, or the list of the values.\<close>

fun collect :: "(py_error + 'a) list \<Rightarrow> py_error + 'a list" where
  "collect [] = Inr []"
| "collect (Inl e # rs) = Inl e"
| "collect (Inr v # rs) = (case collect rs of Inl e \<Rightarrow> Inl e | Inr vs \<Rightarrow> Inr (v # vs))"

text \<open>
  \<open>create_height_map\<close>, with the attributes it reads as arguments: \<open>min_height\<close>, the first
  feature size \<open>fs0\<close> and the resolution. The pixels are visited row by row.
\<close>

definition create_height_map ::
  "real \<Rightarrow> real \<Rightarrow> int list \<Rightarrow> real list \<Rightarrow> (real \<times> real) list \<Rightarrow> py_error + real array2" where
  "create_height_map min_height fs0 res radius locs =
     (if list_ex (\<lambda>r. r < 0) res then Inl (ValueError ''negative dimensions are not allowed'')
      else
        (case collect (map (\<lambda>x. collect (map (\<lambda>y.
                  (case lens_contribution radius locs (real x + 1 / 2) (real y + 1 / 2) of
                     Inl e \<Rightarrow> Inl e
                   | Inr c \<Rightarrow> Inr (min_height + c * fs0)))
                [0..<nat (res ! 1)])) [0..<nat (res ! 0)]) of
           Inl e \<Rightarrow> Inl e
         | Inr h \<Rightarrow>
             (if list_all (list_all (\<lambda>v. min_height \<le> v)) h then Inr h
              else Inl AssertionError)))"

subsection \<open>Construction of a \<open>MultiLensArray\<close>\<close>

record multi_lens_array =
  mla_geometry :: geometry
  mla_loc :: "(real \<times> real) list"
  mla_radius :: "real list"
  mla_field :: "complex array2"
  mla_psf :: "real array3"

text \<open>
  The height map of \<open>create_mask\<close>: locations and radii go to pixel units, the locations by
  the feature size of their axis, the radii by the first feature size. (A zero feature size
  gives \<open>inf\<close> in floating point, which the reals do not have.)
\<close>

definition mla_height_map ::
  "geometry \<Rightarrow> real \<Rightarrow> (real \<times> real) list \<Rightarrow> real list \<Rightarrow> py_error + real array2" where
  "mla_height_map geo min_height loc radius =
     (let locs_res = map (\<lambda>(x, y). (x * (1 / feature_size geo ! 0), y * (1 / feature_size geo ! 1)))
                       loc;
          radius_res = map (\<lambda>r. r * (1 / feature_size geo ! 0)) radius
      in create_height_map min_height (feature_size geo ! 0) (resolution geo) radius_res locs_res)"

text \<open>
  \<open>create_mask\<close>: lenses are placed when no location was given, with the default of 1000
  attempts. The plot of the phase is left out.
\<close>

definition mla_create_mask ::
  "'g np_random \<Rightarrow> geometry \<Rightarrow> (real \<times> real) list option \<Rightarrow> real list \<Rightarrow> real \<Rightarrow> real \<Rightarrow> real \<Rightarrow>
   'g \<Rightarrow> (py_error + (real \<times> real) list \<times> real list \<times> complex array2) \<times> 'g" where
  "mla_create_mask rng geo loc radius refractive_index wavelength min_height g =
     (case (case loc of
              Some l \<Rightarrow> (Inr (l, radius), g)
            | None \<Rightarrow> place_spheres_on_plane rng (size_m geo ! 0) (size_m geo ! 1) radius 1000 g) of
        (Inl e, g1) \<Rightarrow> (Inl e, g1)
      | (Inr (l, rad), g1) \<Rightarrow>
          (case mla_height_map geo min_height l rad of
             Inl e \<Rightarrow> (Inl e, g1)
           | Inr h \<Rightarrow>
               (Inr (l, rad,
                     map2d (\<lambda>v. exp (\<i> * of_real (v * (refractive_index - 1) * 2 * pi / wavelength)))
                       h), g1)))"

text \<open>
  \<open>MultiLensArray.__init__\<close>: given radii are checked against the given locations; without
  radii the generator is seeded and \<open>N\<close> radii are drawn. Then \<open>Mask.__init__\<close> runs.
\<close>

definition mla_init_radius ::
  "'g np_random \<Rightarrow> int option \<Rightarrow> real list option \<Rightarrow> (real \<times> real) list option \<Rightarrow> int \<Rightarrow> real \<Rightarrow>
   'g \<Rightarrow> (py_error + real list) \<times> 'g" where
  "mla_init_radius rng N radius loc seed min_height g0 =
     (case radius of
        Some rad \<Rightarrow>
          (case loc of
             None \<Rightarrow> (Inl AssertionError, g0)
           | Some l \<Rightarrow>
               (if length rad \<noteq> length l then (Inl AssertionError, g0)
                else if \<not> no_circle_overlap (map2 (\<lambda>(x, y) r. (x, y, r)) l rad)
                then (Inl AssertionError, g0)
                else (Inr rad, g0)))
      | None \<Rightarrow>
          (case N of
             None \<Rightarrow> (Inl AssertionError, g0)
           | Some n \<Rightarrow>
               (let g1 = rng_seed rng seed
                in if n < 0 then (Inl (ValueError ''negative dimensions are not allowed''), g1)
                   else (let (rad, g2) = uniform_list rng min_height (1 / 10 ^ 5) (nat n) g1
                         in (Inr rad, g2)))))"

definition MultiLensArray_init ::
  "'g np_random \<Rightarrow> (complex array2 \<Rightarrow> real \<Rightarrow> real list \<Rightarrow> real \<Rightarrow> complex array2) \<Rightarrow>
   int option \<Rightarrow> real list option \<Rightarrow> (real \<times> real) list option \<Rightarrow> real \<Rightarrow> real \<Rightarrow> int \<Rightarrow> real \<Rightarrow>
   int list \<Rightarrow> real \<Rightarrow> real list option \<Rightarrow> fs_arg option \<Rightarrow> real list \<Rightarrow> 'g \<Rightarrow>
   (py_error + multi_lens_array) \<times> 'g" where
  "MultiLensArray_init rng angular_spectrum N radius loc refractive_index design_wv seed
     min_height res dz size_arg fs_arg psf_wavelength g0 =
     (case mla_init_radius rng N radius loc seed min_height g0 of
        (Inl e, g1) \<Rightarrow> (Inl e, g1)
      | (Inr rad, g1) \<Rightarrow>
          (case Mask_init_geometry res dz size_arg fs_arg of
             Inl e \<Rightarrow> (Inl e, g1)
           | Inr geo \<Rightarrow>
               (case mla_create_mask rng geo loc rad refractive_index design_wv min_height g1 of
                  (Inl e, g2) \<Rightarrow> (Inl e, g2)
                | (Inr (l, rad2, fld), g2) \<Rightarrow>
                    (case compute_psf angular_spectrum geo fld psf_wavelength of
                       Inl e \<Rightarrow> (Inl e, g2)
                     | Inr p \<Rightarrow>
                         (Inr \<lparr>mla_geometry = geo, mla_loc = l, mla_radius = rad2,
                                mla_field = fld, mla_psf = p\<rparr>, g2)))))"

text \<open>
  Lenses that keep apart: the distance of the centres of any two of them is at least the
  sum of their radii.
\<close>

definition lenses_apart :: "(real \<times> real) list \<Rightarrow> real list \<Rightarrow> bool" where
  "lenses_apart locs rads =
     (\<forall>i < length locs. \<forall>j < length locs. i \<noteq> j \<longrightarrow>
        rads ! i + rads ! j
          \<le> sqrt ((fst (locs ! i) - fst (locs ! j))\<^sup>2 + (snd (locs ! i) - snd (locs ! j))\<^sup>2))"

text \<open>Two circles keep apart when the test of \<open>does_circle_overlap\<close> fails on them.\<close>

definition apart :: "circle \<Rightarrow> circle \<Rightarrow> bool" where
  "apart c d =
     (case c of (x, y, r) \<Rightarrow> case d of (cx, cy, cr) \<Rightarrow>
        \<not> sqrt ((x - cx)\<^sup>2 + (y - cy)\<^sup>2) < r + cr)"




subsection \<open>\<open>PhaseContour\<close>\<close>








subsection \<open>\<open>CodedAperture.get_conv_matrices\<close> and \<open>simulate\<close>\<close>

text \<open>
  \<open>np.resize(a, n)\<close> repeats \<open>a\<close> up to the length \<open>n\<close> (zeros for an empty \<open>a\<close>), and
  \<open>scipy.linalg.circulant(c)\<close> is the square matrix with the entry \<open>c[(i - j) mod n]\<close> in row
  \<open>i\<close> and column \<open>j\<close>.
\<close>

definition np_resize :: "int list \<Rightarrow> nat \<Rightarrow> int list" where
  "np_resize a n = (if a = [] then replicate n 0 else map (\<lambda>k. a ! (k mod length a)) [0..<n])"

definition circulant :: "int list \<Rightarrow> int array2" where
  "circulant c =
     map (\<lambda>i. map (\<lambda>j. c ! ((i + length c - j) mod length c)) [0..<length c]) [0..<length c]"

text \<open>
  \<open>get_conv_matrices\<close> for a mask of resolution \<open>res\<close> with the sequences \<open>col\<close> and \<open>row\<close>;
  \<open>[:, : n]\<close> keeps the first \<open>n\<close> columns, all of them when there are fewer.
\<close>

definition get_conv_matrices ::
  "int list \<Rightarrow> int list \<Rightarrow> nat \<times> nat \<Rightarrow> nat \<times> nat \<Rightarrow> int array2 \<times> int array2" where
  "get_conv_matrices col_seq row_seq res img_shape =
     (map (take (fst img_shape)) (circulant (np_resize col_seq (fst res))),
      map (take (snd img_shape)) (circulant (np_resize row_seq (snd res))))"

text \<open>
  An array of three axes (height, width, channels) with its shape, so that an axis of
  length 0 keeps the lengths of the others.
\<close>

record image =
  img_h :: nat
  img_w :: nat
  img_c :: nat
  img_at :: "nat \<Rightarrow> nat \<Rightarrow> nat \<Rightarrow> real"

text \<open>
  \<open>simulate\<close>. The products \<open>P @ obj[:, :, c] @ Q.T\<close> are computed for every channel first:
  \<open>multi_dot\<close> raises ValueError when the number of columns of \<open>P\<close> is not the height of
  the image or the width of the image is not the number of columns of \<open>Q\<close>. Then
  \<open>np.dstack\<close> raises ValueError on an empty list of channels. \<open>add_shot_noise\<close> is the
  function of \<open>waveprop.noise\<close>.
\<close>

definition simulate ::
  "(image \<Rightarrow> real \<Rightarrow> image) \<Rightarrow> int list \<Rightarrow> int list \<Rightarrow> nat \<times> nat \<Rightarrow> image \<Rightarrow> real option \<Rightarrow>
   py_error + image" where
  "simulate add_shot_noise col_seq row_seq res obj snr_db =
     (let (P, Q) = get_conv_matrices col_seq row_seq res (img_h obj, img_w obj);
          n_channels = img_c obj
      in if 0 < n_channels \<and> (snd (shape2 P) \<noteq> img_h obj \<or> img_w obj \<noteq> snd (shape2 Q))
         then Inl (ValueError ''shapes not aligned'')
         else if n_channels = 0
         then Inl (ValueError ''need at least one array to concatenate'')
         else
           (let meas = \<lparr>img_h = length P, img_w = length Q, img_c = n_channels,
                         img_at = (\<lambda>i j ch. \<Sum>k\<leftarrow>[0..<img_h obj]. \<Sum>l\<leftarrow>[0..<img_w obj].
                                     of_int (P ! i ! k) * img_at obj k l ch * of_int (Q ! j ! l))\<rparr>
            in Inr (case snr_db of None \<Rightarrow> meas | Some s \<Rightarrow> add_shot_noise meas s)))"

text \<open>The shape of an image, and a noise that adds nothing, for use at concrete inputs.\<close>

definition image_shape :: "image \<Rightarrow> nat \<times> nat \<times> nat" where
  "image_shape m = (img_h m, img_w m, img_c m)"

definition example_noise :: "image \<Rightarrow> real \<Rightarrow> image" where
  "example_noise m snr_db = m"

subsection \<open>Results on \<open>phase_retrieval\<close>\<close>

lemma pr_loop_no_iteration: "n_iter \<le> 0 \<Longrightarrow> pr_loop f t wv d dz n_iter s = s"
  by (simp add: pr_loop_def)

text \<open>
  Claim C1 says that \<open>phase_retrieval\<close> with \<open>n_iter = 0\<close> returns the all-zero phase and a
  zero height map. The code returns nothing there: \<open>M_phi\<close> is bound only inside the loop, so
  with no iteration the line \<open>phi = (np.angle(M_phi) + 2 * np.pi) % (2 * np.pi)\<close> raises
  UnboundLocalError, for every target PSF, wavelength, scalar pitch, distance and refractive
  index, with and without the height map.
\<close>

theorem phase_retrieval_zero_iterations_raises:
  "phase_retrieval fresnel_conv target_psf wv (Scalar d) dz n 0 height_map
     = Inl (UnboundLocalError ''M_phi'')"
  by (simp add: phase_retrieval_def pitch_first_def pr_loop_def)

subsection \<open>Results on \<open>is_prime\<close>\<close>

text \<open>The integer square root, the odd trial divisors, and \<open>is_prime\<close> from 2 on.\<close>

lemma le_int_sqrt_iff: "0 \<le> n \<Longrightarrow> 0 \<le> m \<Longrightarrow> m \<le> int_sqrt n \<longleftrightarrow> m * m \<le> n"
proof -
  assume n: "0 \<le> n" and m: "0 \<le> m"
  have "m \<le> int_sqrt n \<longleftrightarrow> real_of_int m \<le> sqrt (real_of_int n)"
    by (simp add: int_sqrt_def le_floor_iff)
  also have "\<dots> \<longleftrightarrow> sqrt ((real_of_int m)\<^sup>2) \<le> sqrt (real_of_int n)"
    using m by simp
  also have "\<dots> \<longleftrightarrow> (real_of_int m)\<^sup>2 \<le> real_of_int n"
    by (rule real_sqrt_le_iff)
  also have "\<dots> \<longleftrightarrow> real_of_int (m * m) \<le> real_of_int n"
    by (simp add: power2_eq_square)
  also have "\<dots> \<longleftrightarrow> m * m \<le> n"
    by (rule of_int_le_iff)
  finally show ?thesis .
qed

lemma int_sqrt_eqI: "0 \<le> k \<Longrightarrow> k * k \<le> n \<Longrightarrow> n < (k + 1) * (k + 1) \<Longrightarrow> int_sqrt n = k"
proof -
  assume k: "0 \<le> k" and lo: "k * k \<le> n" and hi: "n < (k + 1) * (k + 1)"
  have n: "0 \<le> n" using lo k by (meson mult_nonneg_nonneg order_trans)
  have a: "k \<le> int_sqrt n" using le_int_sqrt_iff [OF n k] lo by simp
  have "\<not> k + 1 \<le> int_sqrt n" using le_int_sqrt_iff [OF n, of "k + 1"] hi k by simp
  with a show ?thesis by simp
qed

lemma set_py_range_3_2: "set (py_range 3 m 2) = {i. 3 \<le> i \<and> i < m \<and> odd i}"
proof (rule set_eqI)
  fix i :: int
  show "i \<in> set (py_range 3 m 2) \<longleftrightarrow> i \<in> {i. 3 \<le> i \<and> i < m \<and> odd i}"
  proof
    assume "i \<in> set (py_range 3 m 2)"
    then obtain k where k: "k < nat ((m - 3 + 2 - 1) div 2)" and i: "i = 3 + 2 * int k"
      by (auto simp: py_range_def)
    from k have "int k < (m - 2) div 2" by simp
    then have "3 + 2 * int k < m" by linarith
    with i show "i \<in> {i. 3 \<le> i \<and> i < m \<and> odd i}" by simp
  next
    assume "i \<in> {i. 3 \<le> i \<and> i < m \<and> odd i}"
    then have i: "3 \<le> i" "i < m" "odd i" by auto
    from \<open>odd i\<close> obtain j where j: "i = 2 * j + 1" by (rule oddE)
    define k where "k = nat (j - 1)"
    have e: "i = 3 + 2 * int k" using i j unfolding k_def by simp
    have "int k < (m - 3 + 2 - 1) div 2" using i e by linarith
    then have "k < nat ((m - 3 + 2 - 1) div 2)" by simp
    with e show "i \<in> set (py_range 3 m 2)" by (auto simp: py_range_def)
  qed
qed

lemma is_prime_trial:
  assumes "0 \<le> n" "\<not> (n mod 2 = 0 \<and> n > 2)"
  shows "is_prime n = Inr (\<forall>i. 3 \<le> i \<and> i * i \<le> n \<and> odd i \<longrightarrow> \<not> i dvd n)"
proof -
  have "list_all (\<lambda>i. n mod i \<noteq> 0) (py_range 3 (int_sqrt n + 1) 2)
        \<longleftrightarrow> (\<forall>i. 3 \<le> i \<and> i * i \<le> n \<and> odd i \<longrightarrow> \<not> i dvd n)"
    using assms(1) le_int_sqrt_iff [OF assms(1)]
    by (auto simp: list_all_iff set_py_range_3_2 dvd_eq_mod_eq_0)
  moreover have "\<not> n < 0" using assms(1) by simp
  ultimately show ?thesis using assms(2) by (simp only: is_prime_def if_False)
qed

lemma prime_number_no_small_divisor:
  assumes "prime_number p" "3 \<le> i" "i * i \<le> p"
  shows "\<not> i dvd p"
proof
  assume d: "i dvd p"
  have "i < i * i" using assms(2) by (simp add: mult_strict_right_mono [of 1 i i, simplified])
  with assms(3) have ne: "i \<noteq> p" "i \<noteq> 1" using assms(2) by auto
  have "0 < i" using assms(2) by simp
  with d assms(1) have "i = 1 \<or> i = p" unfolding prime_number_def by blast
  with ne show False by simp
qed

lemma composite_small_divisor:
  assumes p: "1 < p" "odd p" and np: "\<not> prime_number p"
  shows "\<exists>i. 3 \<le> i \<and> i * i \<le> p \<and> odd i \<and> i dvd p"
proof -
  from np p obtain d where d: "0 < d" "d dvd p" "d \<noteq> 1" "d \<noteq> p"
    by (auto simp: prime_number_def)
  from d(2) obtain e where e: "p = d * e" by (auto simp: dvd_def)
  have "0 < d * e" using p(1) e by simp
  then have epos: "0 < e" using d(1) by (rule zero_less_mult_pos)
  have e1: "e \<noteq> 1" using d(4) e by simp
  have od: "odd d" "odd e" using p(2) e by auto
  have d3: "3 \<le> d" using d(1,3) od(1) by presburger
  have e3: "3 \<le> e" using epos e1 od(2) by presburger
  show ?thesis
  proof (cases "d \<le> e")
    case True
    then have "d * d \<le> p" using e d(1) by (simp add: mult_left_mono)
    with d3 od(1) d(2) show ?thesis by blast
  next
    case False
    then have "e * e \<le> p" using e epos by (simp add: mult_right_mono)
    moreover have "e dvd p" using e by simp
    ultimately show ?thesis using e3 od(2) by blast
  qed
qed

lemma is_prime_correct: 
  assumes "2 \<le> p"
  shows "is_prime p = Inr (prime_number p)"
proof (cases "p mod 2 = 0 \<and> p > 2")
  case True
  then have "2 dvd p" "2 \<noteq> p" by auto
  then have "\<not> prime_number p" unfolding prime_number_def by (metis zero_less_numeral numeral_eq_one_iff semiring_norm(85))
  with True show ?thesis by (simp add: is_prime_def)
next
  case False
  have t: "is_prime p = Inr (\<forall>i. 3 \<le> i \<and> i * i \<le> p \<and> odd i \<longrightarrow> \<not> i dvd p)"
    using is_prime_trial [of p] False assms by simp
  show ?thesis
  proof (cases "p = 2")
    case True
    have "prime_number 2" unfolding prime_number_def
    proof (intro conjI allI impI)
      fix d :: int assume "0 < d \<and> d dvd 2"
      then have "0 < d" "d \<le> 2" by (auto dest: zdvd_imp_le)
      then show "d = 1 \<or> d = 2" by auto
    qed simp
    moreover have "\<And>i::int. 3 \<le> i \<Longrightarrow> \<not> i * i \<le> 2"
    proof
      fix i :: int assume "3 \<le> i" "i * i \<le> 2"
      then have "3 * 3 \<le> i * i" by (intro mult_mono) auto
      with \<open>i * i \<le> 2\<close> show False by simp
    qed
    ultimately show ?thesis using t True by auto
  next
    case p2: False
    with False assms have odd: "odd p" and p1: "1 < p" by presburger+
    show ?thesis
      using t prime_number_no_small_divisor [of p] composite_small_divisor [OF p1 odd]
      by auto
  qed
qed

lemma prime_number_dvd_mult:
  assumes p: "prime_number p" and d: "p dvd a * b"
  shows "p dvd a \<or> p dvd b"
proof (cases "p dvd a")
  case True then show ?thesis by simp
next
  case False
  have g0: "0 < gcd p a" using p by (simp add: prime_number_def gcd_pos_int)
  have "gcd p a dvd p" by simp
  with p g0 have "gcd p a = 1 \<or> gcd p a = p" unfolding prime_number_def by blast
  moreover have "gcd p a \<noteq> p" using False by (metis gcd_dvd2)
  ultimately have "coprime p a" by (simp add: coprime_iff_gcd_eq_1)
  then have "p dvd a * b \<longleftrightarrow> p dvd b" by (rule coprime_dvd_mult_right_iff)
  with d show ?thesis by simp
qed

lemma sq_mod_inj:
  assumes p: "prime_number p" and x: "0 \<le> x" and y: "0 \<le> y" and s: "x + y < p"
    and e: "x * x mod p = y * y mod p"
  shows "x = y"
proof (rule ccontr)
  assume ne: "x \<noteq> y"
  have "p dvd x * x - y * y" using e by (simp add: mod_eq_dvd_iff)
  also have "x * x - y * y = (x - y) * (x + y)" by (simp add: algebra_simps)
  finally have "p dvd x - y \<or> p dvd x + y" using p by (simp add: prime_number_dvd_mult)
  then show False
  proof
    assume "p dvd x + y"
    moreover have "0 < x + y" using x y ne by linarith
    ultimately show False using s by (simp add: zdvd_not_zless)
  next
    assume d: "p dvd x - y"
    then have "p dvd \<bar>x - y\<bar>" by simp
    moreover have "0 < \<bar>x - y\<bar>" "\<bar>x - y\<bar> < p" using x y ne s by linarith+
    ultimately show False using zdvd_not_zless by blast
  qed
qed

lemma involution_fixed_parity:
  fixes S :: "'a set"
  assumes "finite S" and "\<forall>x\<in>S. h x \<in> S \<and> h (h x) = x"
  shows "even (card S) \<longleftrightarrow> even (card {x \<in> S. h x = x})"
  using assms
proof (induction "card S" arbitrary: S rule: less_induct)
  case less
  show ?case
  proof (cases "\<forall>x\<in>S. h x = x")
    case True
    then have "{x \<in> S. h x = x} = S" by auto
    then show ?thesis by simp
  next
    case False
    then obtain x where x: "x \<in> S" "h x \<noteq> x" by auto
    have hx: "h x \<in> S" "h (h x) = x" using less.prems(2) x(1) by auto
    define T where "T = S - {x, h x}"
    have fT: "finite T" using less.prems(1) by (simp add: T_def)
    have cS: "card S = card T + 2"
    proof -
      have "card S = card (insert x (insert (h x) T))"
        using x(1) hx(1) by (auto simp: T_def intro!: arg_cong [where f = card])
      also have "\<dots> = card T + 2" using fT x(2) by (simp add: T_def)
      finally show ?thesis .
    qed
    have inv: "\<forall>y\<in>T. h y \<in> T \<and> h (h y) = y"
    proof
      fix y assume y: "y \<in> T"
      then have yS: "y \<in> S" "y \<noteq> x" "y \<noteq> h x" by (auto simp: T_def)
      have hy: "h y \<in> S" "h (h y) = y" using less.prems(2) yS(1) by auto
      have "h y \<noteq> x" using hy(2) yS(3) by auto
      moreover have "h y \<noteq> h x" using hy(2) hx(2) yS(2) by metis
      ultimately show "h y \<in> T \<and> h (h y) = y" using hy by (simp add: T_def)
    qed
    have fx: "{y \<in> T. h y = y} = {y \<in> S. h y = y}"
      using x(2) hx(2) by (auto simp: T_def)
    have "card T < card S" using cS by simp
    from less.hyps [OF this fT inv] have "even (card T) \<longleftrightarrow> even (card {y \<in> S. h y = y})"
      by (simp add: fx)
    then show ?thesis by (simp add: cS)
  qed
qed

lemma prime_number_inverse:
  assumes p: "prime_number p" and x: "0 < x" "x < p"
  shows "\<exists>y. 0 < y \<and> y < p \<and> x * y mod p = 1"
proof -
  have p1: "1 < p" using p by (simp add: prime_number_def)
  have g0: "0 < gcd x p" using x by (simp add: gcd_pos_int)
  have "gcd x p dvd p" by simp
  with p g0 have "gcd x p = 1 \<or> gcd x p = p" unfolding prime_number_def by blast
  moreover have "gcd x p \<noteq> p"
  proof
    assume "gcd x p = p"
    then have "p dvd x" by (metis gcd_dvd1)
    with x show False by (simp add: zdvd_not_zless)
  qed
  ultimately have g: "gcd x p = 1" by simp
  obtain u v where "u * x + v * p = gcd x p" using bezout_int by blast
  with g have uv: "x * u = 1 - v * p" by (simp add: algebra_simps)
  have "x * u mod p = (1 + (- v) * p) mod p" using uv by simp
  also have "\<dots> = 1 mod p" by (rule mod_mult_self1)
  also have "\<dots> = 1" using p1 by simp
  finally have xu: "x * u mod p = 1" .
  define y where "y = u mod p"
  have xy: "x * y mod p = 1" unfolding y_def using xu by (simp add: mod_mult_right_eq)
  have "0 \<le> y" "y < p" unfolding y_def using p1 by simp_all
  moreover have "y \<noteq> 0" using xy by auto
  ultimately show ?thesis using xy by (intro exI [of _ y]) simp
qed

lemma partner_exists:
  assumes p: "prime_number p" and pn: "p = 4 * n + 1" and x: "1 \<le> x" "x \<le> 2 * n"
  shows "\<exists>z. 1 \<le> z \<and> z \<le> 2 * n \<and> (x * z mod p = 1 \<or> x * z mod p = p - 1)"
proof -
  have p1: "1 < p" using p by (simp add: prime_number_def)
  have x': "0 < x" "x < p" using x pn by simp_all
  from prime_number_inverse [OF p x'] obtain y where y: "0 < y" "y < p" "x * y mod p = 1"
    by blast
  show ?thesis
  proof (cases "y \<le> 2 * n")
    case True
    with y(1,3) have "1 \<le> y \<and> y \<le> 2 * n \<and> (x * y mod p = 1 \<or> x * y mod p = p - 1)" by simp
    then show ?thesis ..
  next
    case False
    have "x * (p - y) = - (x * y) + x * p" by (simp add: algebra_simps)
    then have "x * (p - y) mod p = (- (x * y) + x * p) mod p" by simp
    also have "\<dots> = (- (x * y)) mod p" by (rule mod_mult_self1)
    also have "\<dots> = p - 1" using y(3) p1 by (simp add: zmod_zminus1_eq_if)
    finally have r: "x * (p - y) mod p = p - 1" .
    have "1 \<le> p - y" "p - y \<le> 2 * n" using False y(2) pn by simp_all
    with r have "1 \<le> p - y \<and> p - y \<le> 2 * n \<and> (x * (p - y) mod p = 1 \<or> x * (p - y) mod p = p - 1)"
      by simp
    then show ?thesis ..
  qed
qed

lemma partner_unique:
  assumes p: "prime_number p" and pn: "p = 4 * n + 1" and x: "1 \<le> x" "x \<le> 2 * n"
    and z: "1 \<le> z" "z \<le> 2 * n" and z': "1 \<le> z'" "z' \<le> 2 * n"
    and r: "x * z mod p = 1 \<or> x * z mod p = p - 1"
    and r': "x * z' mod p = 1 \<or> x * z' mod p = p - 1"
  shows "z = z'"
proof -
  have ndvd: "\<not> p dvd x" using x pn by (simp add: zdvd_not_zless)
  have zz: "0 < z + z'" "z + z' < p" "\<bar>z - z'\<bar> < p" using z z' pn by linarith+
  have "x * z mod p = x * z' mod p \<or> x * z mod p + x * z' mod p = p"
    using r r' by linarith
  then show ?thesis
  proof
    assume "x * z mod p = x * z' mod p"
    then have "p dvd x * z - x * z'" by (simp only: mod_eq_dvd_iff)
    moreover have "x * z - x * z' = x * (z - z')" by (simp add: algebra_simps)
    ultimately have "p dvd x * (z - z')" by simp
    with prime_number_dvd_mult [OF p] ndvd have "p dvd z - z'" by blast
    then have "p dvd \<bar>z - z'\<bar>" by simp
    with zz(3) have "\<not> 0 < \<bar>z - z'\<bar>" using zdvd_not_zless [of "\<bar>z - z'\<bar>" p] by blast
    then show ?thesis by simp
  next
    assume "x * z mod p + x * z' mod p = p"
    then have "(x * z mod p + x * z' mod p) mod p = 0" by simp
    then have "(x * z + x * z') mod p = 0" by (simp only: mod_add_eq)
    moreover have "x * z + x * z' = x * (z + z')" by (simp add: algebra_simps)
    ultimately have "p dvd x * (z + z')" by (simp add: dvd_eq_mod_eq_0)
    with prime_number_dvd_mult [OF p] ndvd have "p dvd z + z'" by blast
    with zz(1,2) show ?thesis using zdvd_not_zless [of "z + z'" p] by blast
  qed
qed

lemma sqrt_minus_one_exists:
  assumes p: "prime_number p" and pn: "p = 4 * n + 1"
  shows "\<exists>x. 0 \<le> x \<and> x \<le> 2 * n \<and> x * x mod p = p - 1"
proof -
  have p1: "1 < p" using p by (simp add: prime_number_def)
  have n1: "1 \<le> n" using p1 pn by simp
  define S where "S = {1..2 * n}"
  define R where "R x z \<longleftrightarrow> x * z mod p = 1 \<or> x * z mod p = p - 1" for x z
  have Rsym: "R x z \<Longrightarrow> R z x" for x z by (simp add: R_def mult.commute)
  have ex: "\<exists>z. z \<in> S \<and> R x z" if "x \<in> S" for x
    using partner_exists [OF p pn, of x] that unfolding S_def R_def by simp
  have uniq: "z = z'" if "x \<in> S" "z \<in> S" "z' \<in> S" "R x z" "R x z'" for x z z'
    using partner_unique [OF p pn, of x z z'] that unfolding S_def R_def by simp
  define h where "h x = (THE z. z \<in> S \<and> R x z)" for x
  have hprop: "h x \<in> S \<and> R x (h x)" if "x \<in> S" for x
  proof -
    from ex [OF that] obtain z where z: "z \<in> S \<and> R x z" by blast
    have "\<And>w. w \<in> S \<and> R x w \<Longrightarrow> w = z" using uniq [OF that] z by blast
    with z have "(THE z. z \<in> S \<and> R x z) \<in> S \<and> R x (THE z. z \<in> S \<and> R x z)"
      by (rule theI)
    then show ?thesis by (simp only: h_def)
  qed
  have heq: "h x = z" if "x \<in> S" "z \<in> S" "R x z" for x z
  proof -
    from hprop [OF that(1)] have "h x \<in> S" "R x (h x)" by simp_all
    then show ?thesis using uniq [OF that(1) _ that(2) _ that(3)] by blast
  qed
  have invol: "\<forall>x\<in>S. h x \<in> S \<and> h (h x) = x"
  proof
    fix x assume x: "x \<in> S"
    from hprop [OF x] have a: "h x \<in> S" "R x (h x)" by simp_all
    from heq [OF a(1) x Rsym [OF a(2)]] a(1) show "h x \<in> S \<and> h (h x) = x" by simp
  qed
  have fixed: "{x \<in> S. h x = x} = {x \<in> S. R x x}"
  proof (rule Collect_cong)
    fix x
    show "(x \<in> S \<and> h x = x) = (x \<in> S \<and> R x x)"
    proof (cases "x \<in> S")
      case True
      have "h x = x \<longleftrightarrow> R x x"
      proof
        assume "h x = x" with hprop [OF True] show "R x x" by simp
      next
        assume "R x x" with heq [OF True True] show "h x = x" by simp
      qed
      with True show ?thesis by simp
    qed simp
  qed
  have finS: "finite S" by (simp add: S_def)
  have "card S = nat (2 * n)" by (simp add: S_def)
  also have "\<dots> = 2 * nat n" by (simp add: nat_mult_distrib)
  finally have "even (card S)" by simp
  with involution_fixed_parity [OF finS invol] have ev: "even (card {x \<in> S. R x x})"
    by (simp only: fixed)
  have one: "1 \<in> S" "R 1 1" using n1 p1 by (simp_all add: S_def R_def)
  have "{x \<in> S. R x x} \<noteq> {1}"
  proof
    assume "{x \<in> S. R x x} = {1}"
    with ev show False by simp
  qed
  with one obtain x where x: "x \<in> S" "R x x" "x \<noteq> 1" by blast
  have "x * x mod p \<noteq> 1"
  proof
    assume "x * x mod p = 1"
    then have e: "x * x mod p = 1 * 1 mod p" using p1 by simp
    have "0 \<le> x" "x + 1 < p" using x(1) pn by (simp_all add: S_def)
    then have "x = 1" using sq_mod_inj [OF p _ _ _ e] by simp
    with x(3) show False by simp
  qed
  with x(2) have "x * x mod p = p - 1" by (simp add: R_def)
  moreover have "0 \<le> x" "x \<le> 2 * n" using x(1) by (simp_all add: S_def)
  ultimately show ?thesis by blast
qed

subsection \<open>Results on the MURA square pattern\<close>

lemma set_quadratic_residues:
  "p \<noteq> 0 \<Longrightarrow> quadratic_residues p = Inr q \<Longrightarrow> set q = (\<lambda>i. i * i mod p) ` {0..p div 2}"
  by (auto simp: quadratic_residues_def)

lemma card_squares:
  assumes p: "prime_number p" and pn: "p = 4 * n + 1"
  shows "card ((\<lambda>i. i * i mod p) ` {0..2 * n}) = nat (2 * n + 1)"
proof -
  have "inj_on (\<lambda>i. i * i mod p) {0..2 * n}"
  proof (rule inj_onI)
    fix x y assume "x \<in> {0..2 * n}" "y \<in> {0..2 * n}" "x * x mod p = y * y mod p"
    then show "x = y" using sq_mod_inj [OF p, of x y] pn by simp
  qed
  then have "card ((\<lambda>i. i * i mod p) ` {0..2 * n}) = card {0..2 * n}" by (rule card_image)
  then show ?thesis by simp
qed

lemma card_squares_below:
  assumes p: "prime_number p" and pn: "p = 4 * n + 1"
  shows "card {j \<in> {1..p - 1}. j - 1 \<in> (\<lambda>i. i * i mod p) ` {0..2 * n}} = nat (2 * n)"
proof -
  define Q where "Q = (\<lambda>i. i * i mod p) ` {0..2 * n}"
  have p1: "1 < p" using p by (simp add: prime_number_def)
  have n1: "1 \<le> n" using p1 pn by simp
  have fin: "finite Q" by (simp add: Q_def)
  have sub: "Q \<subseteq> {0..p - 1}" using p1 by (auto simp: Q_def)
  from sqrt_minus_one_exists [OF p pn] obtain x0 where
    x0: "x0 \<in> {0..2 * n}" "x0 * x0 mod p = p - 1" by auto
  have "x0 * x0 mod p \<in> Q" unfolding Q_def using x0(1) by (rule imageI)
  then have top: "p - 1 \<in> Q" by (simp only: x0(2))
  have cQ: "card Q = nat (2 * n + 1)" unfolding Q_def by (rule card_squares [OF p pn])
  have im: "(\<lambda>j. j - 1) ` {j \<in> {1..p - 1}. j - 1 \<in> Q} = Q - {p - 1}"
  proof (rule set_eqI)
    fix a
    show "a \<in> (\<lambda>j. j - 1) ` {j \<in> {1..p - 1}. j - 1 \<in> Q} \<longleftrightarrow> a \<in> Q - {p - 1}"
    proof
      assume "a \<in> (\<lambda>j. j - 1) ` {j \<in> {1..p - 1}. j - 1 \<in> Q}"
      then obtain j where "1 \<le> j" "j \<le> p - 1" "j - 1 \<in> Q" "a = j - 1" by auto
      then show "a \<in> Q - {p - 1}" by simp
    next
      assume a: "a \<in> Q - {p - 1}"
      with sub have "0 \<le> a" "a \<le> p - 1" "a \<noteq> p - 1" "a \<in> Q" by auto
      then have "a + 1 \<in> {j \<in> {1..p - 1}. j - 1 \<in> Q}" by simp
      then have "(a + 1) - 1 \<in> (\<lambda>j. j - 1) ` {j \<in> {1..p - 1}. j - 1 \<in> Q}" by (rule imageI)
      then show "a \<in> (\<lambda>j. j - 1) ` {j \<in> {1..p - 1}. j - 1 \<in> Q}" by simp
    qed
  qed
  have "inj_on (\<lambda>j::int. j - 1) {j \<in> {1..p - 1}. j - 1 \<in> Q}" by (rule inj_onI) simp
  then have "card {j \<in> {1..p - 1}. j - 1 \<in> Q} = card ((\<lambda>j. j - 1) ` {j \<in> {1..p - 1}. j - 1 \<in> Q})"
    by (rule card_image [symmetric])
  also have "\<dots> = card Q - 1" using im top fin by simp
  also have "\<dots> = nat (2 * n)" using cQ n1 by simp
  finally show ?thesis by (simp only: Q_def)
qed

lemma sum_list_if_count:
  "sum_list (map (\<lambda>i. c + (if P i then a else b)) xs)
     = length xs * c + length (filter P xs) * a + length (filter (\<lambda>i. \<not> P i) xs) * (b::nat)"
  by (induction xs) (simp_all add: algebra_simps)

lemma squarepattern_row_zero:
  "length (filter (\<lambda>v. v = 1) (map (squarepattern_cell q 0) js)) = 0"
  by (induction js) (simp_all add: squarepattern_cell_def)

lemma squarepattern_row_count:
  assumes i: "1 \<le> i" and p: "1 \<le> p"
  shows "length (filter (\<lambda>v. v = 1) (map (squarepattern_cell q i) [0..p - 1]))
         = 1 + (if i - 1 \<in> set q
                then length (filter (\<lambda>j. j - 1 \<in> set q) [1..p - 1])
                else length (filter (\<lambda>j. \<not> j - 1 \<in> set q) [1..p - 1]))"
proof -
  have split: "[0..p - 1] = 0 # [1..p - 1]" using p by (simp add: upto_rec1)
  have c0: "squarepattern_cell q i 0 = 1" using i by (simp add: squarepattern_cell_def)
  have cj: "(squarepattern_cell q i j = 1) = ((i - 1 \<in> set q) = (j - 1 \<in> set q))"
    if "j \<in> set [1..p - 1]" for j
    using that i by (auto simp: squarepattern_cell_def)
  have "length (filter (\<lambda>v. v = 1) (map (squarepattern_cell q i) [1..p - 1]))
        = length (filter (\<lambda>j. squarepattern_cell q i j = 1) [1..p - 1])"
    by (simp add: filter_map comp_def)
  also have "\<dots> = length (filter (\<lambda>j. (i - 1 \<in> set q) = (j - 1 \<in> set q)) [1..p - 1])"
    using cj by (intro arg_cong [where f = length] filter_cong) simp_all
  also have "\<dots> = (if i - 1 \<in> set q
                then length (filter (\<lambda>j. j - 1 \<in> set q) [1..p - 1])
                else length (filter (\<lambda>j. \<not> j - 1 \<in> set q) [1..p - 1]))"
    by simp
  finally show ?thesis by (simp add: split c0)
qed

lemma count_ones_squarepattern:
  fixes p :: int and q :: "int list"
  assumes p: "1 \<le> p"
  defines "m \<equiv> length [1..p - 1]"
  defines "k \<equiv> length (filter (\<lambda>j. j - 1 \<in> set q) [1..p - 1])"
  shows "count_ones (map (\<lambda>i. map (\<lambda>j. squarepattern_cell q i j) [0..p - 1]) [0..p - 1])
         = m + k * k + (m - k) * (m - k)"
proof -
  have split: "[0..p - 1] = 0 # [1..p - 1]" using p by (simp add: upto_rec1)
  have nk: "length (filter (\<lambda>j. \<not> j - 1 \<in> set q) [1..p - 1]) = m - k"
    using sum_length_filter_compl [of "\<lambda>j. j - 1 \<in> set q" "[1..p - 1]"]
    by (simp add: m_def k_def)
  have rows: "map (\<lambda>i. length (filter (\<lambda>v. v = 1) (map (squarepattern_cell q i) [0..p - 1])))
                [1..p - 1]
              = map (\<lambda>i. 1 + (if i - 1 \<in> set q then k else m - k)) [1..p - 1]"
  proof (rule map_cong [OF refl])
    fix i assume "i \<in> set [1..p - 1]"
    then have "1 \<le> i" by simp
    from squarepattern_row_count [OF this p, of q]
    show "length (filter (\<lambda>v. v = 1) (map (squarepattern_cell q i) [0..p - 1]))
          = 1 + (if i - 1 \<in> set q then k else m - k)"
      by (simp only: nk k_def)
  qed
  define F where
    "F i = length (filter (\<lambda>v. v = 1) (map (squarepattern_cell q i) [0..p - 1]))" for i
  have F0: "F 0 = 0" unfolding F_def by (rule squarepattern_row_zero)
  have rowsF: "map F [1..p - 1] = map (\<lambda>i. 1 + (if i - 1 \<in> set q then k else m - k)) [1..p - 1]"
    unfolding F_def by (rule rows)
  have "count_ones (map (\<lambda>i. map (\<lambda>j. squarepattern_cell q i j) [0..p - 1]) [0..p - 1])
        = sum_list (map F [0..p - 1])"
    by (simp add: count_ones_def comp_def F_def [abs_def])
  also have "\<dots> = sum_list (map F (0 # [1..p - 1]))"
    by (simp only: split [symmetric])
  also have "\<dots> = sum_list (map F [1..p - 1])"
    by (simp add: F0)
  also have "\<dots> = sum_list (map (\<lambda>i. 1 + (if i - 1 \<in> set q then k else m - k)) [1..p - 1])"
    by (simp only: rowsF)
  also have "\<dots> = m * 1 + k * k + (m - k) * (m - k)"
    by (simp only: sum_list_if_count nk) (simp add: m_def k_def)
  finally show ?thesis by simp
qed

lemma one_not_prime_number: "\<not> prime_number 1"
  by (simp add: prime_number_def)

lemma is_prime_one: "is_prime 1 = Inr True"
  by (simp add: is_prime_def int_sqrt_def py_range_def)

lemma squarepattern_one: "squarepattern 1 = Inr [[0]]"
  by (simp add: squarepattern_def is_prime_one quadratic_residues_def squarepattern_cell_def
      upto.simps)

text \<open>
  Claim C4 says that the MURA construction raises the invalid-parameter error exactly when
  \<open>p = 4 * n_bits + 1\<close> is not prime. For \<open>n_bits = 0\<close> the length is 1, which is not
  prime, but \<open>is_prime\<close> has no divisor to try and answers True: \<open>squarepattern\<close> raises
  nothing and returns the array \<open>[[0]]\<close>, and the construction fails only later, with an
  IndexError from \<open>self.mask[0, :]\<close> on the array with no row. From 2 on \<open>is_prime\<close> is
  right (\<open>is_prime_correct\<close>).
\<close>

theorem mura_zero_bits_accepted_by_is_prime:
  "is_prime (4 * 0 + 1) = Inr True \<and>
   squarepattern (4 * 0 + 1) = Inr [[0]] \<and>
   ca_pattern max_len_seq MURA 0 = Inl IndexError"
  by (simp add: is_prime_one squarepattern_one ca_pattern_def)

text \<open>
  Claim C5: for a prime \<open>p = 4 * n_bits + 1\<close>, \<open>squarepattern p\<close> returns an array, and
  exactly \<open>(p\<^sup>2 - 1) / 2\<close> of its cells are one. The count rests on \<open>- 1\<close> being a square
  modulo such a prime: \<open>p - 1\<close> columns hold the one of column 0, and of the numbers
  \<open>0, \<dots>, p - 2\<close> half are squares modulo \<open>p\<close> and half are not.
\<close>

theorem mura_square_pattern_ones:
  assumes p: "prime_number p" and pn: "p = 4 * n_bits + 1"
  shows "\<exists>A. squarepattern p = Inr A \<and> int (count_ones A) = (p * p - 1) div 2"
proof -
  have p1: "1 < p" using p by (simp add: prime_number_def)
  have n1: "1 \<le> n_bits" using p1 pn by simp
  have half: "p div 2 = 2 * n_bits" using pn by simp
  have ip: "is_prime p = Inr True" using is_prime_correct [of p] p p1 by simp
  define q where "q = sort (remdups (map (\<lambda>i. i * i mod p) [0..p div 2]))"
  have qr: "quadratic_residues p = Inr q" using p1 by (simp add: quadratic_residues_def q_def)
  have sq: "set q = (\<lambda>i. i * i mod p) ` {0..2 * n_bits}"
    using set_quadratic_residues [OF _ qr] p1 half by simp
  define A where "A = map (\<lambda>i. map (\<lambda>j. squarepattern_cell q i j) [0..p - 1]) [0..p - 1]"
  have sp: "squarepattern p = Inr A" by (simp add: squarepattern_def ip qr A_def)
  have "length (filter (\<lambda>j. j - 1 \<in> set q) [1..p - 1])
        = card ({j. j - 1 \<in> set q} \<inter> set [1..p - 1])"
    by (rule distinct_length_filter) simp
  also have "{j. j - 1 \<in> set q} \<inter> set [1..p - 1]
             = {j \<in> {1..p - 1}. j - 1 \<in> (\<lambda>i. i * i mod p) ` {0..2 * n_bits}}"
    by (auto simp: sq)
  also have "card \<dots> = nat (2 * n_bits)" by (rule card_squares_below [OF p pn])
  finally have k: "length (filter (\<lambda>j. j - 1 \<in> set q) [1..p - 1]) = nat (2 * n_bits)" .
  have m: "length [1..p - 1] = nat (4 * n_bits)" using pn by simp
  have "1 \<le> p" using p1 by simp
  then have "count_ones A = length [1..p - 1]
        + length (filter (\<lambda>j. j - 1 \<in> set q) [1..p - 1])
          * length (filter (\<lambda>j. j - 1 \<in> set q) [1..p - 1])
        + (length [1..p - 1] - length (filter (\<lambda>j. j - 1 \<in> set q) [1..p - 1]))
          * (length [1..p - 1] - length (filter (\<lambda>j. j - 1 \<in> set q) [1..p - 1]))"
    unfolding A_def by (rule count_ones_squarepattern)
  then have "count_ones A = nat (4 * n_bits) + nat (2 * n_bits) * nat (2 * n_bits)
          + (nat (4 * n_bits) - nat (2 * n_bits)) * (nat (4 * n_bits) - nat (2 * n_bits))"
    by (simp only: m k)
  also have "nat (4 * n_bits) - nat (2 * n_bits) = nat (2 * n_bits)" using n1 by simp
  finally have "int (count_ones A) = 4 * n_bits + 2 * n_bits * (2 * n_bits) + 2 * n_bits * (2 * n_bits)"
    using n1 by simp
  also have "\<dots> = (p * p - 1) div 2"
  proof -
    have "p * p - 1 = 2 * (4 * n_bits + 2 * n_bits * (2 * n_bits) + 2 * n_bits * (2 * n_bits))"
      by (simp add: pn algebra_simps)
    then show ?thesis by simp
  qed
  finally show ?thesis using sp by blast
qed

lemma is_prime_five: "is_prime 5 = Inr True"
  by (simp add: is_prime_def int_sqrt_eqI [of 2] py_range_def)

theorem mura_square_pattern_ones_witness:
  "prime_number 5 \<and> (5::int) = 4 * 1 + 1 \<and>
   (\<exists>A. squarepattern 5 = Inr A \<and> int (count_ones A) = (5 * 5 - 1) div 2)"
proof -
  have p: "prime_number 5" using is_prime_correct [of 5] is_prime_five by simp
  have e: "(5::int) = 4 * 1 + 1" by simp
  from mura_square_pattern_ones [OF p e] p show ?thesis by simp
qed

lemma squarepattern_five:
  "squarepattern 5 = Inr [[0,0,0,0,0],[1,1,1,0,0],[1,1,1,0,0],[1,0,0,1,1],[1,0,0,1,1]]"
  by (simp add: squarepattern_def is_prime_five quadratic_residues_def squarepattern_cell_def
      upto.simps)

subsection \<open>Results on \<open>Mask.__init__\<close>\<close>

lemma assert_py_Inr: "assert_py b k = Inr v \<longleftrightarrow> b \<and> k = Inr v"
  by (simp add: assert_py_def)

lemma upt_two: "[0..<2] = [0, Suc 0]"
  by (simp add: upt_rec numeral_2_eq_2)

lemma all_less_two: "(\<forall>i<2. P (i::nat)) \<longleftrightarrow> P 0 \<and> P (Suc 0)"
proof
  assume a: "\<forall>i<2. P i" 
  have "P 0" "P (Suc 0)" using a by simp_all
  then show "P 0 \<and> P (Suc 0)" by simp
next
  assume a: "P 0 \<and> P (Suc 0)"
  show "\<forall>i<2. P i"
  proof (intro allI impI)
    fix i :: nat assume "i < 2"
    then have "i = 0 \<or> i = Suc 0" by auto
    with a show "P i" by auto
  qed
qed

lemma length_two: "length xs = 2 \<longleftrightarrow> (\<exists>a b. xs = [a, b])"
  by (cases xs; cases "tl xs") auto

lemma geometry_size_derived:
  assumes "Mask_init_geometry res dz None (Some fs) = Inr g"
  shows "resolution g = res \<and> length res = 2 \<and> length (feature_size g) = 2 \<and>
         size_m g = map2 (\<lambda>r f. of_int r * f) res (feature_size g)"
proof -
  from assms have l: "length res = 2"
    by (simp add: Mask_init_geometry_def assert_py_Inr)
  then obtain a b where res: "res = [a, b]" by (auto simp: length_two)
  show ?thesis
  proof (cases fs)
    case (FSFloat f)
    with assms res show ?thesis
      by (auto simp: Mask_init_geometry_def assert_py_def res_times_fs_def split: if_splits)
  next
    case (FSSeq fl)
    with assms res show ?thesis
      by (auto simp: Mask_init_geometry_def assert_py_def res_times_fs_def
          split: if_splits)
  next
    case (FSInt k)
    with assms res show ?thesis
      by (simp add: Mask_init_geometry_def assert_py_def res_times_fs_def)
  qed
qed

lemma geometry_feature_size_derived:
  assumes "Mask_init_geometry res dz (Some sz) None = Inr g"
  shows "resolution g = res \<and> length res = 2 \<and> size_m g = sz \<and> length sz = 2 \<and>
         0 \<notin> set res \<and> feature_size g = map2 (\<lambda>s r. s / of_int r) sz res"
  using assms
  by (auto simp: Mask_init_geometry_def assert_py_def split: if_splits)

lemma geometry_invariant:
  assumes "Mask_init_geometry res dz size_arg fs_arg = Inr g"
  shows "\<forall>i<2. of_int (resolution g ! i) * feature_size g ! i \<le> size_m g ! i"
proof -
  from assms obtain sz fs where
    g: "g = \<lparr>resolution = res, size_m = sz, feature_size = fs, distance_sensor = dz\<rparr>"
    and a: "list_all (\<lambda>i. of_int (res ! i) * fs ! i \<le> sz ! i) [0..<2]"
    by (auto simp: Mask_init_geometry_def assert_py_def split: if_splits sum.splits)
  from a show ?thesis by (simp add: g upt_two all_less_two)
qed

lemma geometry_neither_supplied: "Mask_init_geometry res dz None None = Inl AssertionError"
  by (simp add: Mask_init_geometry_def assert_py_def)

text \<open>
  Claim C3: when \<open>Mask.__init__\<close> succeeds, the size is \<open>resolution * feature_size\<close>
  elementwise if no size was given, the feature size is \<open>size / resolution\<close> elementwise if no
  feature size was given, and \<open>resolution * feature_size \<le> size\<close> holds in both components
  whatever was given: the constructor's last assertion fails otherwise.
\<close>

theorem mask_geometry_derived_and_invariant:
  assumes "Mask_init_geometry res dz size_arg fs_arg = Inr g"
  shows "(size_arg = None \<longrightarrow>
            size_m g = map2 (\<lambda>r f. of_int r * f) (resolution g) (feature_size g)) \<and>
         (fs_arg = None \<longrightarrow>
            size_arg = Some (size_m g) \<and>
            feature_size g = map2 (\<lambda>s r. s / of_int r) (size_m g) (resolution g)) \<and>
         (\<forall>i<2. of_int (resolution g ! i) * feature_size g ! i \<le> size_m g ! i)"
proof (intro conjI impI)
  assume n: "size_arg = None"
  with assms obtain fs where "fs_arg = Some fs"
    by (cases fs_arg) (simp_all add: geometry_neither_supplied)
  with assms n have "Mask_init_geometry res dz None (Some fs) = Inr g" by simp
  from geometry_size_derived [OF this]
  show "size_m g = map2 (\<lambda>r f. of_int r * f) (resolution g) (feature_size g)" by simp
next
  assume n: "fs_arg = None"
  with assms obtain sz where s: "size_arg = Some sz"
    by (cases size_arg) (simp_all add: geometry_neither_supplied)
  with assms n have "Mask_init_geometry res dz (Some sz) None = Inr g" by simp
  from geometry_feature_size_derived [OF this] s
  show "size_arg = Some (size_m g)"
    and "feature_size g = map2 (\<lambda>s r. s / of_int r) (size_m g) (resolution g)"
    by simp_all
next
  show "\<forall>i<2. of_int (resolution g ! i) * feature_size g ! i \<le> size_m g ! i"
    using assms by (rule geometry_invariant)
qed

theorem mask_geometry_derived_and_invariant_witness:
  "Mask_init_geometry [4, 3] 1 None (Some (FSFloat (1 / 2)))
     = Inr \<lparr>resolution = [4, 3], size_m = [2, 3 / 2], feature_size = [1 / 2, 1 / 2],
            distance_sensor = 1\<rparr> \<and>
   Mask_init_geometry [4, 3] 1 (Some [2, 3]) None
     = Inr \<lparr>resolution = [4, 3], size_m = [2, 3], feature_size = [1 / 2, 1],
            distance_sensor = 1\<rparr> \<and>
   [2, 3 / 2] = map2 (\<lambda>r f. real_of_int r * f) [4, 3] [1 / 2, 1 / 2] \<and>
   [1 / 2, 1] = map2 (\<lambda>s r. s / real_of_int r) [2, 3] [4, 3] \<and>
   real_of_int 4 * (1 / 2) \<le> 2 \<and> real_of_int 3 * 1 \<le> 3"
proof -
  have a: "Mask_init_geometry [4, 3] 1 None (Some (FSFloat (1 / 2)))
     = Inr \<lparr>resolution = [4, 3], size_m = [2, 3 / 2], feature_size = [1 / 2, 1 / 2],
            distance_sensor = 1\<rparr>"
    by (simp add: Mask_init_geometry_def assert_py_def res_times_fs_def upt_two)
  have b: "Mask_init_geometry [4, 3] 1 (Some [2, 3]) None
     = Inr \<lparr>resolution = [4, 3], size_m = [2, 3], feature_size = [1 / 2, 1],
            distance_sensor = 1\<rparr>"
    by (simp add: Mask_init_geometry_def assert_py_def upt_two)
  from mask_geometry_derived_and_invariant [OF a] mask_geometry_derived_and_invariant [OF b] a b
  show ?thesis by (simp add: all_less_two)
qed

subsection \<open>Results on \<open>CodedAperture.create_mask\<close>\<close>

lemma np_round_clip_binary: "np_round (np_clip v 0 1) = 0 \<or> np_round (np_clip v 0 1) = 1"
proof -
  define x where "x = np_clip v 0 1"
  have b: "0 \<le> x" "x \<le> 1" by (simp_all add: x_def np_clip_def)
  show ?thesis
  proof (cases "x = 1")
    case True
    then show ?thesis unfolding x_def [symmetric] by (simp add: np_round_def)
  next
    case False
    with b have "0 \<le> x" "x < 1" by simp_all
    then have f: "\<lfloor>x\<rfloor> = 0" by (simp add: floor_eq_iff)
    show ?thesis unfolding x_def [symmetric] by (simp add: np_round_def f Let_def)
  qed
qed

lemma binary2_round_clip: "binary2 (map2d (\<lambda>v. of_int (np_round (np_clip v 0 1))) a)"
proof -
  have "\<And>v. real_of_int (np_round (np_clip v 0 1)) = 0 \<or> real_of_int (np_round (np_clip v 0 1)) = 1"
    using np_round_clip_binary by (metis of_int_0 of_int_1)
  then show ?thesis by (simp add: binary2_def map2d_def list_all_iff)
qed

lemma shape2_map2d: "shape2 (map2d f a) = shape2 a"
  by (cases a) (simp_all add: shape2_def map2d_def)

lemma shape2_np_outer: "shape2 (np_outer xs ys) = (length xs, if xs = [] then 0 else length ys)"
  by (cases xs) (simp_all add: shape2_def np_outer_def)

lemma ca_create_mask_upscaled:
  assumes "ca_pattern max_len_seq method n_bits = Inr c0"
    and "res ! 0 \<noteq> int (fst (shape2 (mask_field c0))) \<or>
         res ! 1 \<noteq> int (snd (shape2 (mask_field c0)))"
  shows "ca_create_mask max_len_seq resize method n_bits res
         = Inr (c0\<lparr>mask_field := map2d (\<lambda>v. of_int (np_round (np_clip v 0 1)))
                                   (resize (mask_field c0) (res ! 0, res ! 1))\<rparr>)"
  using assms by (auto simp: ca_create_mask_def)

lemma shape3_psf:
  assumes "compute_psf angular_spectrum g u wvs = Inr p"
  shows "shape3 p = (nat (resolution g ! 0),
                     (if nat (resolution g ! 0) = 0 then 0 else nat (resolution g ! 1)),
                     (if nat (resolution g ! 0) = 0 \<or> nat (resolution g ! 1) = 0 then 0
                      else length wvs))"
proof -
  define r0 where "r0 = nat (resolution g ! 0)"
  define r1 where "r1 = nat (resolution g ! 1)"
  define us where "us = map (\<lambda>wv. angular_spectrum u wv (feature_size g) (distance_sensor g)) wvs"
  from assms have p: "p = map (\<lambda>x. map (\<lambda>y. map (\<lambda>u. (cmod (broadcast_at u x y))\<^sup>2) us)
                       [0..<r1]) [0..<r0]"
    by (auto simp: compute_psf_def Let_def r0_def r1_def us_def split: if_splits)
  have "shape3 p = (r0, (if r0 = 0 then 0 else r1), (if r0 = 0 \<or> r1 = 0 then 0 else length us))"
    unfolding p shape3_def
    by (cases r0; cases r1) (simp_all add: upt_rec [of 0])
  then show ?thesis by (simp add: r0_def r1_def us_def)
qed

lemma geometry_resolution:
  assumes "Mask_init_geometry res dz size_arg fs_arg = Inr g"
  shows "resolution g = res"
  using assms
  by (auto simp: Mask_init_geometry_def assert_py_def split: if_splits sum.splits)

lemma compute_psf_returns:
  assumes r: "resolution g = [int r0, int r1]"
    and s: "\<forall>wv \<in> set wvs. shape2 (angular_spectrum u wv (feature_size g) (distance_sensor g)) = (r0, r1)"
  shows "\<exists>p. compute_psf angular_spectrum g u wvs = Inr p"
proof -
  have "list_all (\<lambda>v. broadcastable v r0 r1)
          (map (\<lambda>wv. angular_spectrum u wv (feature_size g) (distance_sensor g)) wvs)"
    using s by (simp add: list_all_iff broadcastable_def)
  then show ?thesis by (simp add: compute_psf_def r Let_def)
qed

lemma mls_scenario:
  assumes m: "max_len_seq 5 = Inr s" "length s = 31"
    and rs: "\<forall>a. shape2 (resize a (64, 64)) = (64, 64)"
    and asp: "\<forall>u wv d z. shape2 (angular_spectrum u wv d z) = shape2 u"
    and geo: "Mask_init_geometry [64, 64] dz size_arg fs_arg = Inr g"
  shows "\<exists>m. CodedAperture_init max_len_seq resize angular_spectrum MLS 5 [64, 64] dz size_arg
               fs_arg default_psf_wavelength = Inr m \<and>
             shape2 (mask_field (ca_pattern_of m)) = (64, 64) \<and>
             binary2 (mask_field (ca_pattern_of m)) \<and>
             shape3 (ca_psf m) = (64, 64, 3)"
proof -
  have rg: "resolution g = [64, 64]" using geo by (rule geometry_resolution)
  define h_r where "h_r = map (\<lambda>v. v * 2 - 1) s @ map (\<lambda>v. v * 2 - 1) s"
  define c0 where "c0 = \<lparr>mask_field = map2d (\<lambda>v. (of_int v + 1) / 2) (np_outer h_r h_r),
                          row = h_r, col = h_r\<rparr>"
  have l: "length h_r = 62" using m(2) by (simp add: h_r_def)
  then have ne: "h_r \<noteq> []" by auto
  have pat: "ca_pattern max_len_seq MLS 5 = Inr c0"
    by (simp add: ca_pattern_def m(1) Let_def c0_def h_r_def)
  have sh0: "shape2 (mask_field c0) = (62, 62)"
    by (simp add: c0_def shape2_map2d shape2_np_outer l ne)
  define c where "c = c0\<lparr>mask_field := map2d (\<lambda>v. of_int (np_round (np_clip v 0 1)))
                                   (resize (mask_field c0) (64, 64))\<rparr>"
  have cm: "ca_create_mask max_len_seq resize MLS 5 [64, 64] = Inr c"
    using ca_create_mask_upscaled [OF pat, of "[64, 64]" resize] by (simp add: sh0 c_def)
  have shc: "shape2 (mask_field c) = (64, 64)" using rs by (simp add: c_def shape2_map2d)
  have bin: "binary2 (mask_field c)" by (simp add: c_def binary2_round_clip)
  have "\<forall>wv \<in> set default_psf_wavelength.
          shape2 (angular_spectrum (map2d of_real (mask_field c)) wv (feature_size g)
                    (distance_sensor g)) = (64, 64)"
    using asp shc by (simp add: shape2_map2d)
  moreover have "resolution g = [int 64, int 64]" using rg by simp
  ultimately obtain p where
    p: "compute_psf angular_spectrum g (map2d of_real (mask_field c)) default_psf_wavelength = Inr p"
    using compute_psf_returns [of g 64 64 default_psf_wavelength angular_spectrum] by blast
  have sp: "shape3 p = (64, 64, 3)"
    using shape3_psf [OF p] by (simp add: rg default_psf_wavelength_def)
  have "CodedAperture_init max_len_seq resize angular_spectrum MLS 5 [64, 64] dz size_arg
          fs_arg default_psf_wavelength
        = Inr \<lparr>ca_geometry = g, ca_pattern_of = c, ca_psf = p\<rparr>"
    by (simp add: CodedAperture_init_def geo rg cm p)
  with shc bin sp show ?thesis by simp
qed

text \<open>
  Claim C8: when the requested resolution differs from the shape of the raw pattern,
  \<open>create_mask\<close> returns the resized pattern clipped to \<open>[0, 1]\<close> and rounded, and every
  entry of it is 0 or 1, whatever \<open>resize\<close> returns. In particular, for a maximal-length
  sequence of length 31 (\<open>n_bits = 5\<close>, a raw pattern of 62 by 62), a \<open>resize\<close> that returns
  the requested shape and a propagator that keeps the shape of the field, the MLS mask at
  resolution 64 by 64 is constructed, its field is binary of shape \<open>(64, 64)\<close>, and its PSF
  has shape \<open>(64, 64, 3)\<close> for the default wavelengths.
\<close>

theorem coded_aperture_upscaled_is_binary:
  "(ca_pattern max_len_seq method n_bits = Inr c0 \<and>
    (res ! 0 \<noteq> int (fst (shape2 (mask_field c0))) \<or>
     res ! 1 \<noteq> int (snd (shape2 (mask_field c0)))) \<longrightarrow>
      (\<exists>c. ca_create_mask max_len_seq resize method n_bits res = Inr c \<and>
           mask_field c = map2d (\<lambda>v. of_int (np_round (np_clip v 0 1)))
                            (resize (mask_field c0) (res ! 0, res ! 1)) \<and>
           binary2 (mask_field c))) \<and>
   (max_len_seq 5 = Inr s \<and> length s = 31 \<and>
    (\<forall>a. shape2 (resize a (64, 64)) = (64, 64)) \<and>
    (\<forall>u wv d z. shape2 (angular_spectrum u wv d z) = shape2 u) \<and>
    Mask_init_geometry [64, 64] dz size_arg fs_arg = Inr g \<longrightarrow>
      (\<exists>m. CodedAperture_init max_len_seq resize angular_spectrum MLS 5 [64, 64] dz size_arg
               fs_arg default_psf_wavelength = Inr m \<and>
           shape2 (mask_field (ca_pattern_of m)) = (64, 64) \<and>
           binary2 (mask_field (ca_pattern_of m)) \<and>
           shape3 (ca_psf m) = (64, 64, 3)))"
proof (intro conjI impI)
  assume a: "ca_pattern max_len_seq method n_bits = Inr c0 \<and>
    (res ! 0 \<noteq> int (fst (shape2 (mask_field c0))) \<or>
     res ! 1 \<noteq> int (snd (shape2 (mask_field c0))))"
  from ca_create_mask_upscaled [of max_len_seq "method" n_bits c0 res resize] a
  show "\<exists>c. ca_create_mask max_len_seq resize method n_bits res = Inr c \<and>
           mask_field c = map2d (\<lambda>v. of_int (np_round (np_clip v 0 1)))
                            (resize (mask_field c0) (res ! 0, res ! 1)) \<and>
           binary2 (mask_field c)"
    by (simp add: binary2_round_clip)
next
  assume "max_len_seq 5 = Inr s \<and> length s = 31 \<and>
    (\<forall>a. shape2 (resize a (64, 64)) = (64, 64)) \<and>
    (\<forall>u wv d z. shape2 (angular_spectrum u wv d z) = shape2 u) \<and>
    Mask_init_geometry [64, 64] dz size_arg fs_arg = Inr g"
  then show "\<exists>m. CodedAperture_init max_len_seq resize angular_spectrum MLS 5 [64, 64] dz size_arg
               fs_arg default_psf_wavelength = Inr m \<and>
           shape2 (mask_field (ca_pattern_of m)) = (64, 64) \<and>
           binary2 (mask_field (ca_pattern_of m)) \<and>
           shape3 (ca_psf m) = (64, 64, 3)"
    using mls_scenario [of max_len_seq s resize angular_spectrum dz size_arg fs_arg g] by blast
qed

lemma shape2_table:
  "shape2 (map (\<lambda>x. map (f x) [0..<r1]) [0..<r0]) = (r0, if r0 = 0 then 0 else r1)"
  by (cases r0) (simp_all add: shape2_def upt_rec [of 0])

lemma shape2_example_resize:
  "0 < fst shp \<Longrightarrow> shape2 (example_resize a shp) = (nat (fst shp), nat (snd shp))"
  by (simp add: example_resize_def Let_def shape2_table)

theorem coded_aperture_upscaled_is_binary_witness:
  "(\<exists>c0. ca_pattern example_max_len_seq MLS 2 = Inr c0 \<and>
         shape2 (mask_field c0) = (6, 6) \<and>
         (\<exists>c. ca_create_mask example_max_len_seq example_resize MLS 2 [8, 8] = Inr c \<and>
              mask_field c = map2d (\<lambda>v. of_int (np_round (np_clip v 0 1)))
                               (example_resize (mask_field c0) (8, 8)) \<and>
              binary2 (mask_field c))) \<and>
   (\<exists>s. example_max_len_seq 5 = Inr s \<and> length s = 31) \<and>
   (\<forall>a. shape2 (example_resize a (64, 64)) = (64, 64)) \<and>
   (\<forall>u wv d z. shape2 (example_propagator u wv d z) = shape2 u) \<and>
   (\<exists>g. Mask_init_geometry [64, 64] (4 / 1000) None (Some (FSFloat (1 / 100000))) = Inr g) \<and>
   (\<exists>m. CodedAperture_init example_max_len_seq example_resize example_propagator MLS 5 [64, 64]
          (4 / 1000) None (Some (FSFloat (1 / 100000))) default_psf_wavelength = Inr m \<and>
        shape2 (mask_field (ca_pattern_of m)) = (64, 64) \<and>
        binary2 (mask_field (ca_pattern_of m)) \<and>
        shape3 (ca_psf m) = (64, 64, 3))"
proof -
  define s2 :: "int list" where "s2 = map (\<lambda>k. if k mod 3 = 0 then 1 else 0) [0..<3]"
  define h2 where "h2 = map (\<lambda>v. v * 2 - 1) s2 @ map (\<lambda>v. v * 2 - 1) s2"
  define c0 where "c0 = \<lparr>mask_field = map2d (\<lambda>v. (of_int v + 1) / 2) (np_outer h2 h2),
                          row = h2, col = h2\<rparr>"
  have e2: "example_max_len_seq 2 = Inr s2" by (simp add: example_max_len_seq_def s2_def)
  have pat: "ca_pattern example_max_len_seq MLS 2 = Inr c0"
    by (simp add: ca_pattern_def e2 Let_def c0_def h2_def)
  have l2: "length h2 = 6" by (simp add: h2_def s2_def)
  then have "h2 \<noteq> []" by auto
  with l2 have sh: "shape2 (mask_field c0) = (6, 6)"
    by (simp add: c0_def shape2_map2d shape2_np_outer)
  define s5 :: "int list" where "s5 = map (\<lambda>k. if k mod 3 = 0 then 1 else 0) [0..<31]"
  have e5: "example_max_len_seq 5 = Inr s5" "length s5 = 31"
    by (simp_all add: example_max_len_seq_def s5_def)
  have rs: "\<forall>a. shape2 (example_resize a (64, 64)) = (64, 64)"
    by (simp add: shape2_example_resize)
  have pr: "\<forall>u wv d z. shape2 (example_propagator u wv d z) = shape2 u"
    by (simp add: example_propagator_def)
  define g where "g = \<lparr>resolution = [64, 64], size_m = [64 / 100000, 64 / 100000],
                        feature_size = [1 / 100000, 1 / 100000], distance_sensor = 4 / 1000\<rparr>"
  have geo: "Mask_init_geometry [64, 64] (4 / 1000) None (Some (FSFloat (1 / 100000))) = Inr g"
    by (simp add: Mask_init_geometry_def assert_py_def res_times_fs_def upt_two g_def)
  note inst = coded_aperture_upscaled_is_binary
    [of example_max_len_seq MLS 2 c0 "[8, 8]" example_resize s5 example_propagator
        "4 / 1000" None "Some (FSFloat (1 / 100000))" g]
  have first: "\<exists>c. ca_create_mask example_max_len_seq example_resize MLS 2 [8, 8] = Inr c \<and>
              mask_field c = map2d (\<lambda>v. of_int (np_round (np_clip v 0 1)))
                               (example_resize (mask_field c0) (8, 8)) \<and>
              binary2 (mask_field c)"
    using inst pat sh by simp
  have second: "\<exists>m. CodedAperture_init example_max_len_seq example_resize example_propagator MLS 5
          [64, 64] (4 / 1000) None (Some (FSFloat (1 / 100000))) default_psf_wavelength = Inr m \<and>
        shape2 (mask_field (ca_pattern_of m)) = (64, 64) \<and>
        binary2 (mask_field (ca_pattern_of m)) \<and>
        shape3 (ca_psf m) = (64, 64, 3)"
    using inst e5 rs pr geo by blast
  from pat sh first have "\<exists>c0. ca_pattern example_max_len_seq MLS 2 = Inr c0 \<and>
         shape2 (mask_field c0) = (6, 6) \<and>
         (\<exists>c. ca_create_mask example_max_len_seq example_resize MLS 2 [8, 8] = Inr c \<and>
              mask_field c = map2d (\<lambda>v. of_int (np_round (np_clip v 0 1)))
                               (example_resize (mask_field c0) (8, 8)) \<and>
              binary2 (mask_field c))" by blast
  moreover have "\<exists>s. example_max_len_seq 5 = Inr s \<and> length s = 31" using e5 by blast
  moreover have "\<exists>g. Mask_init_geometry [64, 64] (4 / 1000) None (Some (FSFloat (1 / 100000))) = Inr g"
    using geo by blast
  ultimately show ?thesis using rs pr second by blast
qed

subsection \<open>Results on \<open>HeightVarying\<close>\<close>

lemma py_fmod_phase_inverse:
  assumes n: "n \<noteq> 1" and wv: "wv \<noteq> 0"
  shows "py_fmod (h * (2 * pi * (n - 1) / wv)) (2 * pi) * wv / (2 * pi * (n - 1))
         = h - of_int \<lfloor>h * (2 * pi * (n - 1) / wv) / (2 * pi)\<rfloor> * (wv / (n - 1))"
proof -
  have n1: "n - 1 \<noteq> 0" using n by simp
  have p: "pi \<noteq> 0" by simp
  show ?thesis using n1 wv p unfolding py_fmod_def by (simp add: field_simps)
qed

lemma get_phi_round_trip:
  assumes g: "get_phi hm n wv = Inr ph" and n: "n \<noteq> 1"
  shows "list_all2 (list_all2 (\<lambda>p h. \<exists>k::int. p * wv / (2 * pi * (n - 1))
                                           = h - of_int k * (wv / (n - 1)))) ph hm"
proof -
  from g have wv: "wv \<noteq> 0" and ph: "ph = map2d (\<lambda>h. py_fmod (h * (2 * pi * (n - 1) / wv)) (2 * pi)) hm"
    by (auto simp: get_phi_def split: if_splits)
  have "\<And>h. \<exists>k::int. py_fmod (h * (2 * pi * (n - 1) / wv)) (2 * pi) * wv / (2 * pi * (n - 1))
                     = h - of_int k * (wv / (n - 1))"
    using py_fmod_phase_inverse [OF n wv] by blast
  then show ?thesis
    unfolding ph map2d_def by (simp add: list_all2_map1 list_all2_same)
qed

lemma HeightVarying_init_explicit:
  assumes "fst (HeightVarying_init rng asp n wv (Some hm) hr seed res dz size_arg fs_arg wvs g0)
           = Inr m"
  shows "hv_height_map m = hm \<and> hv_refractive_index m = n \<and> hv_wavelength m = wv \<and>
         int (fst (shape2 hm)) = resolution (hv_geometry m) ! 0 \<and>
         int (snd (shape2 hm)) = resolution (hv_geometry m) ! 1 \<and>
         (\<exists>ph. get_phi hm n wv = Inr ph \<and> hv_field m = map2d (\<lambda>p. exp (\<i> * of_real p)) ph)"
  using assms
  by (auto simp: HeightVarying_init_def hv_create_mask_def Let_def
      split: sum.splits if_splits prod.splits)

text \<open>
  Claim C9: for a \<open>HeightVarying\<close> mask constructed with an explicit height map and a
  refractive index other than 1, \<open>get_phi\<close> returns a phase, and at every pixel
  \<open>phase * wavelength / (2 \<pi> (refractive_index - 1))\<close> is the given height less an integer
  multiple of \<open>wavelength / (refractive_index - 1)\<close>. (With refractive index 1 the inversion
  divides by zero; a zero wavelength makes the construction fail.)
\<close>

theorem height_varying_phase_round_trip:
  assumes "fst (HeightVarying_init rng angular_spectrum refractive_index wavelength (Some hm)
                  height_range seed res dz size_arg fs_arg psf_wavelength g0) = Inr m"
    and "refractive_index \<noteq> 1"
  shows "\<exists>ph. hv_get_phi m = Inr ph \<and>
              list_all2 (list_all2 (\<lambda>p h. \<exists>k::int.
                  p * wavelength / (2 * pi * (refractive_index - 1))
                  = h - of_int k * (wavelength / (refractive_index - 1)))) ph hm"
proof -
  from HeightVarying_init_explicit [OF assms(1)] obtain ph where
    m: "hv_height_map m = hm" "hv_refractive_index m = refractive_index"
       "hv_wavelength m = wavelength"
    and ph: "get_phi hm refractive_index wavelength = Inr ph" by blast
  from get_phi_round_trip [OF ph assms(2)] ph m show ?thesis
    by (simp add: hv_get_phi_def)
qed

theorem height_varying_phase_round_trip_witness:
  "\<exists>m. fst (HeightVarying_init example_rng example_propagator (3 / 2) (1 / 2)
              (Some [[5 / 4, 1 / 8]]) (0, 1) 0 [1, 2] 1 None (Some (FSFloat 1))
              default_psf_wavelength 0) = Inr m \<and>
       (3 / 2 :: real) \<noteq> 1 \<and>
       (\<exists>ph. hv_get_phi m = Inr ph \<and>
             list_all2 (list_all2 (\<lambda>p h. \<exists>k::int.
                 p * (1 / 2) / (2 * pi * (3 / 2 - 1)) = h - of_int k * ((1 / 2) / (3 / 2 - 1))))
               ph [[5 / 4, 1 / 8]])"
proof -
  have "\<exists>m. fst (HeightVarying_init example_rng example_propagator (3 / 2) (1 / 2)
              (Some [[5 / 4, 1 / 8]]) (0, 1) 0 [1, 2] 1 None (Some (FSFloat 1))
              default_psf_wavelength 0) = Inr m"
    by (simp add: HeightVarying_init_def hv_create_mask_def Mask_init_geometry_def assert_py_def
        res_times_fs_def upt_two get_phi_def compute_psf_def shape2_def map2d_def
        example_propagator_def broadcastable_def default_psf_wavelength_def Let_def)
  then obtain m where m: "fst (HeightVarying_init example_rng example_propagator (3 / 2) (1 / 2)
              (Some [[5 / 4, 1 / 8]]) (0, 1) 0 [1, 2] 1 None (Some (FSFloat 1))
              default_psf_wavelength 0) = Inr m" ..
  have n: "(3 / 2 :: real) \<noteq> 1" by simp
  from height_varying_phase_round_trip [OF m n] m n show ?thesis by blast
qed

subsection \<open>Results on the lenses of a \<open>MultiLensArray\<close>\<close>

lemma apart_sym: "apart c d \<Longrightarrow> apart d c"
  by (cases c; cases d) (simp add: apart_def power2_commute add.commute)

lemma does_circle_overlap_iff:
  "does_circle_overlap circles x y r \<longleftrightarrow> (\<exists>d \<in> set circles. \<not> apart (x, y, r) d)"
  by (fastforce simp: does_circle_overlap_def apart_def list_ex_iff)

lemma no_circle_overlap_iff: "no_circle_overlap circles \<longleftrightarrow> sorted_wrt apart circles"
  by (induction circles rule: no_circle_overlap.induct)
     (auto simp: does_circle_overlap_iff)

lemma place_attempts_apart:
  "place_attempts rng placed width hgt r k g = (Some c, g') \<Longrightarrow> \<forall>d \<in> set placed. apart d c"
proof (induction k arbitrary: g)
  case 0
  then show ?case by simp
next
  case (Suc k)
  obtain x g1 where x: "rng_uniform rng r (width - r) g = (x, g1)" by (cases "rng_uniform rng r (width - r) g")
  obtain y g2 where y: "rng_uniform rng r (hgt - r) g1 = (y, g2)" by (cases "rng_uniform rng r (hgt - r) g1")
  show ?case
  proof (cases "does_circle_overlap placed x y r")
    case True
    with Suc.prems x y have "place_attempts rng placed width hgt r k g2 = (Some c, g')"
      by simp
    then show ?thesis by (rule Suc.IH)
  next
    case False
    with Suc.prems x y have c: "c = (x, y, r)" by simp
    from False have "\<forall>d \<in> set placed. apart (x, y, r) d" by (simp add: does_circle_overlap_iff)
    then show ?thesis unfolding c by (blast intro: apart_sym)
  qed
qed

lemma place_all_apart:
  "sorted_wrt apart placed \<Longrightarrow> place_all rng width hgt k rs placed g = (out, g') \<Longrightarrow>
   sorted_wrt apart out"
proof (induction rs arbitrary: placed g)
  case Nil
  then show ?case by simp
next
  case (Cons r rs)
  obtain oc g1 where a: "place_attempts rng placed width hgt r k g = (oc, g1)"
    by (cases "place_attempts rng placed width hgt r k g")
  show ?case
  proof (cases oc)
    case None
    with Cons.prems(2) a have "place_all rng width hgt k rs placed g1 = (out, g')" by simp
    with Cons.prems(1) show ?thesis by (rule Cons.IH)
  next
    case (Some c)
    with Cons.prems(2) a have p: "place_all rng width hgt k rs (placed @ [c]) g1 = (out, g')"
      by simp
    from a Some have "\<forall>d \<in> set placed. apart d c" by (auto dest: place_attempts_apart)
    with Cons.prems(1) have "sorted_wrt apart (placed @ [c])" by (simp add: sorted_wrt_append)
    then show ?thesis using p by (rule Cons.IH)
  qed
qed

lemma sorted_wrt_apart_lenses:
  assumes "sorted_wrt apart cs"
  shows "lenses_apart (map (\<lambda>(x, y, r). (x, y)) cs) (map (\<lambda>(x, y, r). r) cs)"
proof -
  have less: "apart (cs ! i) (cs ! j)" if "i < j" "j < length cs" for i j
    using assms that by (simp add: sorted_wrt_iff_nth_less)
  have any: "apart (cs ! i) (cs ! j)" if "i < length cs" "j < length cs" "i \<noteq> j" for i j
  proof (cases "i < j")
    case True
    with that show ?thesis by (simp add: less)
  next
    case False
    with that have "j < i" by simp
    then have "apart (cs ! j) (cs ! i)" using that by (simp add: less)
    then show ?thesis by (rule apart_sym)
  qed
  show ?thesis
    unfolding lenses_apart_def
  proof (intro allI impI)
    fix i j
    assume i: "i < length (map (\<lambda>(x, y, r). (x, y)) cs)"
      and j: "j < length (map (\<lambda>(x, y, r). (x, y)) cs)" and ne: "i \<noteq> j"
    then have a: "apart (cs ! i) (cs ! j)" using any by simp
    obtain x y r where ci: "cs ! i = (x, y, r)" by (cases "cs ! i")
    obtain cx cy cr where cj: "cs ! j = (cx, cy, cr)" by (cases "cs ! j")
    from a ci cj i j
    show "map (\<lambda>(x, y, r). r) cs ! i + map (\<lambda>(x, y, r). r) cs ! j
          \<le> sqrt ((fst (map (\<lambda>(x, y, r). (x, y)) cs ! i) - fst (map (\<lambda>(x, y, r). (x, y)) cs ! j))\<^sup>2
                + (snd (map (\<lambda>(x, y, r). (x, y)) cs ! i) - snd (map (\<lambda>(x, y, r). (x, y)) cs ! j))\<^sup>2)"
      by (simp add: apart_def)
  qed
qed

lemma place_spheres_on_plane_apart:
  assumes "place_spheres_on_plane rng width hgt radius k g = (Inr (locs, rads), g')"
  shows "lenses_apart locs rads \<and> length rads = length locs \<and> locs \<noteq> []"
proof -
  obtain placed g1 where p: "place_all rng width hgt k (rev (sort radius)) [] g = (placed, g1)"
    by (cases "place_all rng width hgt k (rev (sort radius)) [] g")
  from assms p have ne: "placed \<noteq> []"
    and l: "locs = map (\<lambda>(x, y, r). (x, y)) placed"
    and r: "rads = map (\<lambda>(x, y, r). r) placed"
    by (auto simp: place_spheres_on_plane_def split: if_splits)
  have "sorted_wrt apart placed" using place_all_apart [OF _ p] by simp
  then show ?thesis using ne unfolding l r by (simp add: sorted_wrt_apart_lenses)
qed

lemma map_split_zip_locs:
  "length l = length rad \<Longrightarrow>
   map (\<lambda>(x, y, r). (x, y)) (map2 (\<lambda>(x, y) r. (x, y, r)) l rad) = l \<and>
   map (\<lambda>(x, y, r). r) (map2 (\<lambda>(x, y) r. (x, y, r)) l rad) = rad"
  by (induction l rad rule: list_induct2) auto

lemma mla_init_radius_explicit:
  assumes "mla_init_radius rng N (Some rad) loc seed min_height g0 = (Inr r, g1)"
  shows "\<exists>l. loc = Some l \<and> r = rad \<and> lenses_apart l rad"
proof -
  from assms obtain l where l: "loc = Some l" "length rad = length l" "r = rad"
    "no_circle_overlap (map2 (\<lambda>(x, y) r. (x, y, r)) l rad)"
    by (auto simp: mla_init_radius_def split: option.splits if_splits)
  from l(4) have "sorted_wrt apart (map2 (\<lambda>(x, y) r. (x, y, r)) l rad)"
    by (simp add: no_circle_overlap_iff)
  then have "lenses_apart (map (\<lambda>(x, y, r). (x, y)) (map2 (\<lambda>(x, y) r. (x, y, r)) l rad))
                (map (\<lambda>(x, y, r). r) (map2 (\<lambda>(x, y) r. (x, y, r)) l rad))"
    by (rule sorted_wrt_apart_lenses)
  moreover have "length l = length rad" using l(2) by simp
  ultimately have "lenses_apart l rad"
    using map_split_zip_locs [of l rad] by (simp only:)
  with l show ?thesis by simp
qed

lemma mla_create_mask_lenses:
  assumes "mla_create_mask rng geo loc rad n wv mh g = (Inr (l, rad2, fld), g')"
  shows "(case loc of Some l0 \<Rightarrow> l = l0 \<and> rad2 = rad | None \<Rightarrow> lenses_apart l rad2)"
proof (cases loc)
  case None
  with assms obtain g1 where
    "place_spheres_on_plane rng (size_m geo ! 0) (size_m geo ! 1) rad 1000 g = (Inr (l, rad2), g1)"
    by (auto simp: mla_create_mask_def split: prod.splits sum.splits)
  from place_spheres_on_plane_apart [OF this] None show ?thesis by simp
next
  case (Some l0)
  with assms show ?thesis
    by (auto simp: mla_create_mask_def split: prod.splits sum.splits)
qed

lemma multi_lens_array_checked_paths_apart:
  assumes "MultiLensArray_init rng angular_spectrum N radius loc refractive_index design_wv seed
             min_height res dz size_arg fs_arg psf_wavelength g0 = (Inr m, g1)"
    and "radius \<noteq> None \<or> loc = None"
  shows "lenses_apart (mla_loc m) (mla_radius m)"
proof -
  from assms(1) obtain rad ga geo gb fld where
    r: "mla_init_radius rng N radius loc seed min_height g0 = (Inr rad, ga)"
    and c: "mla_create_mask rng geo loc rad refractive_index design_wv min_height ga
            = (Inr (mla_loc m, mla_radius m, fld), gb)"
    by (auto simp: MultiLensArray_init_def split: prod.splits sum.splits)
  show ?thesis
  proof (cases loc)
    case None
    with mla_create_mask_lenses [OF c] show ?thesis by simp
  next
    case (Some l0)
    with assms(2) obtain rad0 where rad0: "radius = Some rad0" by auto
    from mla_init_radius_explicit [OF r [unfolded rad0]] Some
    have "rad = rad0" "lenses_apart l0 rad0" by auto
    with mla_create_mask_lenses [OF c] Some show ?thesis by simp
  qed
qed

lemma mla_unit_geometry:
  "Mask_init_geometry [1, 1] 1 None (Some (FSFloat 1))
   = Inr \<lparr>resolution = [1, 1], size_m = [1, 1], feature_size = [1, 1], distance_sensor = 1\<rparr>"
  by (simp add: Mask_init_geometry_def assert_py_def res_times_fs_def upt_two)

lemma uniform_list_two:
  "uniform_list rng lo hi 2 g =
     (let (x, g1) = rng_uniform rng lo hi g; (y, g2) = rng_uniform rng lo hi g1
      in ([x, y], g2))"
  by (simp add: numeral_2_eq_2 Let_def split: prod.splits)

lemma mla_radius_drawn:
  "mla_init_radius example_rng (Some 2) None (Some [(5, 5), (5, 5)]) 0 (1 / 1000) 0
   = (Inr [1 / 1000, 301 / 400000], 2)"
  by (simp add: mla_init_radius_def example_rng_def uniform_list_two Let_def)

lemma lens_contribution_far:
  "lens_contribution [1 / 1000, 301 / 400000] [(5, 5), (5, 5)] (1 / 2) (1 / 2) = Inr 0"
  by (simp add: power2_eq_square)

lemma create_height_map_one_pixel:
  "lens_contribution radius locs (1 / 2) (1 / 2) = Inr c \<Longrightarrow> 0 \<le> c * fs0 \<Longrightarrow>
   create_height_map min_height fs0 [1, 1] radius locs = Inr [[min_height + c * fs0]]"
  by (simp add: create_height_map_def)

lemma mla_height_map_unit:
  "mla_height_map \<lparr>resolution = [1, 1], size_m = [1, 1], feature_size = [1, 1],
                   distance_sensor = 1\<rparr> min_height loc radius
   = create_height_map min_height 1 [1, 1] radius loc"
proof -
  have "map (\<lambda>(x, y). (x * (1 / 1), y * (1 / 1))) loc = loc" for loc :: "(real \<times> real) list"
    by (induction loc) auto
  then show ?thesis by (simp add: mla_height_map_def)
qed

lemma mla_same_centre_height:
  "mla_height_map \<lparr>resolution = [1, 1], size_m = [1, 1], feature_size = [1, 1],
                   distance_sensor = 1\<rparr> (1 / 1000) [(5, 5), (5, 5)]
     [1 / 1000, 301 / 400000] = Inr [[1 / 1000]]"
  using create_height_map_one_pixel [OF lens_contribution_far, of 1 "1 / 1000"]
  by (simp add: mla_height_map_unit)

lemma mla_given_locations_constructed:
  "\<exists>fld p. MultiLensArray_init example_rng example_propagator (Some 2) None
               (Some [(5, 5), (5, 5)]) 2 1 0 (1 / 1000) [1, 1] 1 None
               (Some (FSFloat 1)) [1] 0
     = (Inr \<lparr>mla_geometry = \<lparr>resolution = [1, 1], size_m = [1, 1], feature_size = [1, 1],
                                distance_sensor = 1\<rparr>,
             mla_loc = [(5, 5), (5, 5)], mla_radius = [1 / 1000, 301 / 400000],
             mla_field = fld, mla_psf = p\<rparr>, 2)"
proof -
  define geo where "geo = \<lparr>resolution = [1, 1], size_m = [1, 1], feature_size = [1, 1],
                            distance_sensor = 1\<rparr>"
  define fld :: "complex array2" where
    "fld = map2d (\<lambda>v. exp (\<i> * of_real (v * (2 - 1) * 2 * pi / 1))) [[1 / 1000]]"
  have cm: "mla_create_mask example_rng geo (Some [(5, 5), (5, 5)]) [1 / 1000, 301 / 400000]
              2 1 (1 / 1000) 2 = (Inr ([(5, 5), (5, 5)], [1 / 1000, 301 / 400000], fld), 2)"
    unfolding mla_create_mask_def geo_def fld_def
    by (simp only: mla_same_centre_height option.case prod.case sum.case)
  have r: "resolution geo = [int 1, int 1]" by (simp add: geo_def)
  have "\<forall>wv \<in> set [1]. shape2 (example_propagator fld wv (feature_size geo) (distance_sensor geo))
          = (1, 1)"
    by (simp add: example_propagator_def fld_def map2d_def shape2_def)
  from compute_psf_returns [of geo 1 1 "[1]" example_propagator fld, OF r this] obtain p where
    p: "compute_psf example_propagator geo fld [1] = Inr p" ..
  have "MultiLensArray_init example_rng example_propagator (Some 2) None
               (Some [(5, 5), (5, 5)]) 2 1 0 (1 / 1000) [1, 1] 1 None
               (Some (FSFloat 1)) [1] 0
     = (Inr \<lparr>mla_geometry = geo, mla_loc = [(5, 5), (5, 5)],
             mla_radius = [1 / 1000, 301 / 400000], mla_field = fld, mla_psf = p\<rparr>, 2)"
    unfolding MultiLensArray_init_def
    by (simp only: mla_radius_drawn mla_unit_geometry [folded geo_def] cm p prod.case sum.case)
  then show ?thesis unfolding geo_def by blast
qed

text \<open>
  Claim C6 says that the lenses of every \<open>MultiLensArray\<close> keep apart. The code sees to it
  where it places the lenses itself and where radii and locations are both given
  (\<open>multi_lens_array_checked_paths_apart\<close>). Where locations are given without radii, the radii
  are drawn, the given locations are kept, and no test is made: two lenses given the same
  centre \<open>(5, 5)\<close> are constructed with the radii drawn for them, at distance 0.
\<close>

theorem multi_lens_array_given_locations_overlap:
  "\<not> isl (fst (MultiLensArray_init example_rng example_propagator (Some 2) None
               (Some [(5, 5), (5, 5)]) 2 1 0 (1 / 1000) [1, 1] 1 None
               (Some (FSFloat 1)) [1] 0)) \<and>
   mla_loc (projr (fst (MultiLensArray_init example_rng example_propagator (Some 2) None
               (Some [(5, 5), (5, 5)]) 2 1 0 (1 / 1000) [1, 1] 1 None
               (Some (FSFloat 1)) [1] 0))) = [(5, 5), (5, 5)] \<and>
   mla_radius (projr (fst (MultiLensArray_init example_rng example_propagator (Some 2) None
               (Some [(5, 5), (5, 5)]) 2 1 0 (1 / 1000) [1, 1] 1 None
               (Some (FSFloat 1)) [1] 0))) = [1 / 1000, 301 / 400000] \<and>
   sqrt ((5 - 5)\<^sup>2 + (5 - 5)\<^sup>2) < (1 / 1000 + 301 / 400000 :: real)"
proof -
  from mla_given_locations_constructed obtain fld p where
    "MultiLensArray_init example_rng example_propagator (Some 2) None
               (Some [(5, 5), (5, 5)]) 2 1 0 (1 / 1000) [1, 1] 1 None
               (Some (FSFloat 1)) [1] 0
     = (Inr \<lparr>mla_geometry = \<lparr>resolution = [1, 1], size_m = [1, 1], feature_size = [1, 1],
                                distance_sensor = 1\<rparr>,
             mla_loc = [(5, 5), (5, 5)], mla_radius = [1 / 1000, 301 / 400000],
             mla_field = fld, mla_psf = p\<rparr>, 2)" by blast
  then show ?thesis by simp
qed

subsection \<open>Results on the height map of a \<open>MultiLensArray\<close>\<close>





















subsection \<open>Results on the random generator\<close>












subsection \<open>Results on \<open>get_conv_matrices\<close> and \<open>simulate\<close>\<close>

lemma length_np_resize: "length (np_resize a n) = n"
  by (simp add: np_resize_def)

lemma shape2_circulant_take:
  "shape2 (map (take h) (circulant c)) = (length c, if c = [] then 0 else min (length c) h)"
  by (cases c) (simp_all add: shape2_def circulant_def upt_rec [of 0])

lemma conv_matrix_shape:
  assumes "h \<le> n"
  shows "shape2 (map (take h) (circulant (np_resize a n))) = (n, h)"
proof -
  have "np_resize a n = [] \<longleftrightarrow> n = 0" using length_np_resize [of a n] by (metis length_0_conv)
  with assms show ?thesis
    by (auto simp: shape2_circulant_take length_np_resize min_def)
qed

lemma conv_matrix_entry:
  assumes "i < n" "j < h" "h \<le> n"
  shows "map (take h) (circulant (np_resize a n)) ! i ! j
         = np_resize a n ! ((i + n - j) mod n)"
  using assms by (simp add: circulant_def length_np_resize)

lemma np_resize_entry:
  "a \<noteq> [] \<Longrightarrow> k < n \<Longrightarrow> np_resize a n ! k = a ! (k mod length a)"
  by (simp add: np_resize_def)

lemma simulate_returns:
  assumes "img_h obj \<le> fst res" "img_w obj \<le> snd res" "0 < img_c obj"
    and "\<forall>m s. image_shape (add_shot_noise m s) = image_shape m"
  shows "\<exists>m. simulate add_shot_noise col_seq row_seq res obj snr_db = Inr m \<and>
             image_shape m = (fst res, snd res, img_c obj)"
proof -
  define P where "P = map (take (img_h obj)) (circulant (np_resize col_seq (fst res)))"
  define Q where "Q = map (take (img_w obj)) (circulant (np_resize row_seq (snd res)))"
  have sP: "shape2 P = (fst res, img_h obj)" unfolding P_def using assms(1) by (rule conv_matrix_shape)
  have sQ: "shape2 Q = (snd res, img_w obj)" unfolding Q_def using assms(2) by (rule conv_matrix_shape)
  have lP: "length P = fst res" "length Q = snd res"
    by (simp_all add: P_def Q_def circulant_def length_np_resize)
  define meas where "meas = \<lparr>img_h = length P, img_w = length Q, img_c = img_c obj,
                         img_at = (\<lambda>i j ch. \<Sum>k\<leftarrow>[0..<img_h obj]. \<Sum>l\<leftarrow>[0..<img_w obj].
                                     of_int (P ! i ! k) * img_at obj k l ch * of_int (Q ! j ! l))\<rparr>"
  have s: "simulate add_shot_noise col_seq row_seq res obj snr_db
           = Inr (case snr_db of None \<Rightarrow> meas | Some s \<Rightarrow> add_shot_noise meas s)"
    unfolding meas_def using assms(3) sP sQ
    by (simp add: simulate_def get_conv_matrices_def P_def [symmetric] Q_def [symmetric] Let_def)
  have "image_shape meas = (fst res, snd res, img_c obj)"
    by (simp add: image_shape_def meas_def lP)
  with assms(4) have "image_shape (case snd_db of None \<Rightarrow> meas | Some s \<Rightarrow> add_shot_noise meas s)
                      = (fst res, snd res, img_c obj)" for snd_db
    by (cases snd_db) simp_all
  with s show ?thesis by simp
qed

lemma simulate_too_large:
  assumes "fst res < img_h obj \<or> snd res < img_w obj" "0 < img_c obj"
  shows "simulate add_shot_noise col_seq row_seq res obj snr_db
         = Inl (ValueError ''shapes not aligned'')"
proof -
  define P where "P = map (take (img_h obj)) (circulant (np_resize col_seq (fst res)))"
  define Q where "Q = map (take (img_w obj)) (circulant (np_resize row_seq (snd res)))"
  have sP: "snd (shape2 P) = (if fst res = 0 then 0 else min (fst res) (img_h obj))"
    unfolding P_def using length_np_resize [of col_seq "fst res"]
    by (auto simp: shape2_circulant_take)
  have sQ: "snd (shape2 Q) = (if snd res = 0 then 0 else min (snd res) (img_w obj))"
    unfolding Q_def using length_np_resize [of row_seq "snd res"]
    by (auto simp: shape2_circulant_take)
  from assms(1) have "snd (shape2 P) \<noteq> img_h obj \<or> img_w obj \<noteq> snd (shape2 Q)"
    unfolding sP sQ by (auto simp: min_def)
  with assms(2) show ?thesis
    by (simp add: simulate_def get_conv_matrices_def P_def [symmetric] Q_def [symmetric])
qed

lemma simulate_no_channel:
  assumes "img_c obj = 0"
  shows "simulate add_shot_noise col_seq row_seq res obj snr_db
         = Inl (ValueError ''need at least one array to concatenate'')"
  using assms by (simp add: simulate_def Let_def split: prod.splits)

text \<open>
  Claim C10, as the code has it: for an image of \<open>h\<close> rows and \<open>w\<close> columns that fit in the
  resolution, \<open>get_conv_matrices\<close> returns \<open>P\<close> of shape \<open>(resolution[0], h)\<close> and \<open>Q\<close> of
  shape \<open>(resolution[1], w)\<close>, the leading columns of the circulant matrices of \<open>col\<close> and
  \<open>row\<close> repeated cyclically up to the resolution; \<open>simulate\<close> on such an image with at least
  one channel returns a measurement of shape \<open>(resolution[0], resolution[1], c)\<close>, whatever
  shape-preserving noise is added; and on an image with at least one channel that is taller
  or wider than the resolution the matrix product raises.
\<close>

theorem conv_matrices_and_simulate_shapes:
  "(get_conv_matrices col_seq row_seq res (h, w) = (P, Q) \<and> h \<le> fst res \<and> w \<le> snd res \<longrightarrow>
      shape2 P = (fst res, h) \<and> shape2 Q = (snd res, w) \<and>
      (\<forall>i j. i < fst res \<and> j < h \<longrightarrow>
         P ! i ! j = np_resize col_seq (fst res) ! ((i + fst res - j) mod fst res)) \<and>
      (\<forall>i j. i < snd res \<and> j < w \<longrightarrow>
         Q ! i ! j = np_resize row_seq (snd res) ! ((i + snd res - j) mod snd res))) \<and>
   (a \<noteq> [] \<and> k < n \<longrightarrow> np_resize a n ! k = a ! (k mod length a)) \<and>
   (img_h obj \<le> fst res \<and> img_w obj \<le> snd res \<and> 0 < img_c obj \<and>
    (\<forall>m s. image_shape (add_shot_noise m s) = image_shape m) \<longrightarrow>
      (\<exists>m. simulate add_shot_noise col_seq row_seq res obj snr_db = Inr m \<and>
           image_shape m = (fst res, snd res, img_c obj))) \<and>
   ((fst res < img_h obj \<or> snd res < img_w obj) \<and> 0 < img_c obj \<longrightarrow>
      simulate add_shot_noise col_seq row_seq res obj snr_db
      = Inl (ValueError ''shapes not aligned''))"
proof (intro conjI impI)
  assume a: "get_conv_matrices col_seq row_seq res (h, w) = (P, Q) \<and> h \<le> fst res \<and> w \<le> snd res"
  then have P: "P = map (take h) (circulant (np_resize col_seq (fst res)))"
    and Q: "Q = map (take w) (circulant (np_resize row_seq (snd res)))"
    by (auto simp: get_conv_matrices_def)
  from a show "shape2 P = (fst res, h)" unfolding P by (simp add: conv_matrix_shape)
  from a show "shape2 Q = (snd res, w)" unfolding Q by (simp add: conv_matrix_shape)
  from a show "\<forall>i j. i < fst res \<and> j < h \<longrightarrow>
         P ! i ! j = np_resize col_seq (fst res) ! ((i + fst res - j) mod fst res)"
    unfolding P by (simp add: conv_matrix_entry)
  from a show "\<forall>i j. i < snd res \<and> j < w \<longrightarrow>
         Q ! i ! j = np_resize row_seq (snd res) ! ((i + snd res - j) mod snd res)"
    unfolding Q by (simp add: conv_matrix_entry)
next
  assume "a \<noteq> [] \<and> k < n"
  then show "np_resize a n ! k = a ! (k mod length a)" by (simp add: np_resize_entry)
next
  assume "img_h obj \<le> fst res \<and> img_w obj \<le> snd res \<and> 0 < img_c obj \<and>
    (\<forall>m s. image_shape (add_shot_noise m s) = image_shape m)"
  then show "\<exists>m. simulate add_shot_noise col_seq row_seq res obj snr_db = Inr m \<and>
           image_shape m = (fst res, snd res, img_c obj)"
    using simulate_returns [of obj res add_shot_noise col_seq row_seq snr_db] by blast
next
  assume "(fst res < img_h obj \<or> snd res < img_w obj) \<and> 0 < img_c obj"
  then show "simulate add_shot_noise col_seq row_seq res obj snr_db
      = Inl (ValueError ''shapes not aligned'')"
    using simulate_too_large [of res obj add_shot_noise col_seq row_seq snr_db] by blast
qed

text \<open>
  The matrices of the sequence \<open>[1, -1]\<close> at resolution \<open>(2, 2)\<close> for an image of one row and
  two columns.
\<close>

lemma conv_matrices_worked:
  "get_conv_matrices [1, - 1] [1, - 1] (2, 2) (1, 2) = ([[1], [- 1]], [[1, - 1], [- 1, 1]])"
  by (simp add: get_conv_matrices_def circulant_def np_resize_def upt_two mod_Suc)

text \<open>
  The statement at that mask: an image of shape \<open>(1, 2, 1)\<close> is measured at shape
  \<open>(2, 2, 1)\<close>, and an image of three rows is refused.
\<close>

theorem conv_matrices_and_simulate_shapes_witness:
  "get_conv_matrices [1, - 1] [1, - 1] (2, 2) (1, 2) = ([[1], [- 1]], [[1, - 1], [- 1, 1]]) \<and>
   shape2 [[1], [- 1 :: int]] = (2, 1) \<and>
   shape2 [[1, - 1], [- 1, 1 :: int]] = (2, 2) \<and>
   [[1, - 1], [- 1, 1 :: int]] ! 1 ! 0 = np_resize [1, - 1] 2 ! 1 \<and>
   np_resize [1, - 1] 4 ! 3 = [1, - 1] ! 1 \<and>
   (\<exists>m. simulate example_noise [1, - 1] [1, - 1] (2, 2)
          \<lparr>img_h = 1, img_w = 2, img_c = 1, img_at = (\<lambda>i j c. 1)\<rparr> None = Inr m \<and>
        image_shape m = (2, 2, 1)) \<and>
   simulate example_noise [1, - 1] [1, - 1] (2, 2)
     \<lparr>img_h = 3, img_w = 2, img_c = 1, img_at = (\<lambda>i j c. 1)\<rparr> None
   = Inl (ValueError ''shapes not aligned'')"
proof -
  note fits = conv_matrices_and_simulate_shapes
    [where col_seq = "[1, - 1]" and row_seq = "[1, - 1]" and res = "(2, 2)" and h = 1 and w = 2
       and P = "[[1], [- 1]]" and Q = "[[1, - 1], [- 1, 1]]" and a = "[1, - 1]" and k = 3 and n = 4
       and obj = "\<lparr>img_h = 1, img_w = 2, img_c = 1, img_at = (\<lambda>i j c. 1)\<rparr>"
       and add_shot_noise = example_noise and snr_db = None]
  note large = conv_matrices_and_simulate_shapes
    [where col_seq = "[1, - 1]" and row_seq = "[1, - 1]" and res = "(2, 2)" and h = 1 and w = 2
       and P = "[[1], [- 1]]" and Q = "[[1, - 1], [- 1, 1]]" and a = "[1, - 1]" and k = 3 and n = 4
       and obj = "\<lparr>img_h = 3, img_w = 2, img_c = 1, img_at = (\<lambda>i j c. 1)\<rparr>"
       and add_shot_noise = example_noise and snr_db = None]
  have g: "get_conv_matrices [1, - 1] [1, - 1] (2, 2) (1, 2) = ([[1], [- 1]], [[1, - 1], [- 1, 1]])"
    by (rule conv_matrices_worked)
  have n: "\<forall>m s. image_shape (example_noise m s) = image_shape m"
    by (simp add: example_noise_def)
  from fits g have s1: "shape2 [[1], [- 1 :: int]] = (2, 1)"
    and s2: "shape2 [[1, - 1], [- 1, 1 :: int]] = (2, 2)"
    and e: "\<forall>i j. i < fst (2 :: nat, 2 :: nat) \<and> j < 2 \<longrightarrow>
         [[1, - 1], [- 1, 1 :: int]] ! i ! j = np_resize [1, - 1] (snd (2 :: nat, 2 :: nat)) ! ((i + snd (2 :: nat, 2 :: nat) - j) mod snd (2 :: nat, 2 :: nat))"
    by simp_all
  from e have "(1 :: nat) < 2 \<and> (0 :: nat) < 2 \<longrightarrow>
      [[1, - 1], [- 1, 1 :: int]] ! 1 ! 0 = np_resize [1, - 1] 2 ! ((1 + 2 - 0) mod 2)"
    unfolding fst_conv snd_conv by blast
  then have e': "[[1, - 1], [- 1, 1 :: int]] ! 1 ! 0 = np_resize [1, - 1] 2 ! 1"
    by (simp add: mod_Suc)
  have md: "(3 :: nat) mod length [1, - 1 :: int] = 1"
    by (simp add: numeral_3_eq_3 mod_Suc)
  have nz: "[1, - 1 :: int] \<noteq> [] \<and> (3 :: nat) < 4"
    by simp
  have "np_resize [1, - 1] 4 ! 3 = [1, - 1 :: int] ! (3 mod length [1, - 1 :: int])"
    by (rule fits [THEN conjunct2, THEN conjunct1, THEN mp, OF nz])
  then have r: "np_resize [1, - 1] 4 ! 3 = [1, - 1 :: int] ! 1"
    by (simp only: md)
  from fits n have m: "\<exists>m. simulate example_noise [1, - 1] [1, - 1] (2, 2)
          \<lparr>img_h = 1, img_w = 2, img_c = 1, img_at = (\<lambda>i j c. 1)\<rparr> None = Inr m \<and>
        image_shape m = (2, 2, 1)"
    by simp
  from large have l: "simulate example_noise [1, - 1] [1, - 1] (2, 2)
     \<lparr>img_h = 3, img_w = 2, img_c = 1, img_at = (\<lambda>i j c. 1)\<rparr> None
   = Inl (ValueError ''shapes not aligned'')"
    by simp
  from g s1 s2 e' r m l show ?thesis by blast
qed

text \<open>
  Claim C10 as it is stated, for every image of shape \<open>(h, w, c)\<close>, fails at \<open>c = 0\<close>: the list
  of channel products handed to \<open>np.dstack\<close> is empty, and \<open>simulate\<close> raises instead of
  returning a measurement of shape \<open>(resolution[0], resolution[1], 0)\<close>.
\<close>

theorem simulate_zero_channels_raises:
  "img_h \<lparr>img_h = 1, img_w = 2, img_c = 0, img_at = (\<lambda>i j c. 0)\<rparr> \<le> fst (2 :: nat, 2 :: nat) \<and>
   img_w \<lparr>img_h = 1, img_w = 2, img_c = 0, img_at = (\<lambda>i j c. 0)\<rparr> \<le> snd (2 :: nat, 2 :: nat) \<and>
   simulate example_noise [1, - 1] [1, - 1] (2, 2)
     \<lparr>img_h = 1, img_w = 2, img_c = 0, img_at = (\<lambda>i j c. 0)\<rparr> None
   = Inl (ValueError ''need at least one array to concatenate'')"
  by (simp add: simulate_no_channel)

end
